theory Spec2Isabelle
  imports Main "HOL-Library.Word"
begin

section \<open>Time, bytes and formatting\<close>

text \<open>
  The gateway of \<^verbatim>\<open>main.go\<close> is embedded function by function. A Go \<^verbatim>\<open>byte\<close> is an
  8-bit word. A \<^verbatim>\<open>time.Time\<close> is an integer number of nanoseconds and a
  \<^verbatim>\<open>time.Duration\<close> an integer number of nanoseconds, so that
  \<^verbatim>\<open>time.Since(t)\<close>, read when the clock shows \<open>now\<close>, is \<open>now - t\<close>. Every place where
  the source reads the clock (\<^verbatim>\<open>time.Now()\<close>, \<^verbatim>\<open>time.Since\<close>) is an argument of the
  embedded function, one argument per reading, in the order of the readings. Go saturates a
  duration at about 292 years; the source compares durations with constants of at
  most 15 minutes only, on which the saturated and the exact difference agree.
\<close>

type_synonym byte = "8 word"
type_synonym time = int

definition Millisecond :: int where
  "Millisecond = 1000000"

definition Second :: int where
  "Second = 1000 * Millisecond"

definition Minute :: int where
  "Minute = 60 * Second"

definition Since :: "time \<Rightarrow> time \<Rightarrow> int" where
  "Since now t = now - t"

text \<open>
  \<^verbatim>\<open>fmt.Sprintf("%x", b)\<close> and \<^verbatim>\<open>fmt.Sprintf("%d", n)\<close>: digits in base 16 (lower case) and
  base 10, most significant first, no padding, a minus sign for a negative number.
\<close>

definition digit :: "nat \<Rightarrow> char" where
  "digit d = ''0123456789abcdefghijklmnopqrstuvwxyz'' ! d"

function fmt_base :: "nat \<Rightarrow> nat \<Rightarrow> string" where
  "fmt_base b n = (if b < 2 \<or> n < b then [digit n] else fmt_base b (n div b) @ [digit (n mod b)])"
  by pat_completeness auto
termination
  by (relation "measure snd") auto

declare fmt_base.simps [simp del]

definition fmt_x :: "byte \<Rightarrow> string" where
  "fmt_x b = fmt_base 16 (unat b)"

definition fmt_d :: "int \<Rightarrow> string" where
  "fmt_d n = (if n < 0 then ''-'' @ fmt_base 10 (nat (- n)) else fmt_base 10 (nat n))"

section \<open>Configuration and the bus driver\<close>

text \<open>
  The settings of \<^verbatim>\<open>Config\<close> that the embedded functions read. The connection settings
  (serial device, broker URL, credentials, client id) are used by \<^verbatim>\<open>connectVallox\<close> and
  \<^verbatim>\<open>connectMqtt\<close> only, which are not embedded.
\<close>

record Config =
  DeviceId :: string
  DeviceName :: string
  Debug :: bool
  EnableWrite :: bool
  SpeedMin :: byte
  EnableRaw :: bool
  ObjectId :: bool
  NewProtocol :: bool

text \<open>
  \<^verbatim>\<open>vallox.Event\<close>, with the fields the gateway reads. \<^verbatim>\<open>Value\<close> is a signed integer
  that the source converts with \<^verbatim>\<open>byte(e.Value)\<close>, which keeps the low eight bits.
\<close>

record Event =
  Register :: byte
  RawValue :: byte
  Value :: int

text \<open>
  The bus driver \<^verbatim>\<open>github.com/pvainio/vallox-rs485\<close> is an external library: its register
  constants and its address test \<^verbatim>\<open>ForMe\<close> are parameters of the model. Its methods
  \<^verbatim>\<open>Query\<close> and \<^verbatim>\<open>SetSpeed\<close> are recorded as effects.
\<close>

record Vallox =
  FanSpeed :: byte
  TempIncomingInside :: byte
  TempIncomingOutside :: byte
  TempOutgoingInside :: byte
  TempOutgoingOutside :: byte
  TempIncomingInsideNew :: byte
  TempIncomingOutsideNew :: byte
  TempOutgoingInsideNew :: byte
  TempOutgoingOutsideNew :: byte
  ForMe :: "Event \<Rightarrow> bool"

definition topicFanSpeed :: string where
  "topicFanSpeed = ''fan/speed''"

definition topicFanSpeedSet :: string where
  "topicFanSpeedSet = ''fan/set''"

definition topicTempIncomingIside :: string where
  "topicTempIncomingIside = ''temp/incoming/inside''"

definition topicTempIncomingOutside :: string where
  "topicTempIncomingOutside = ''temp/incoming/outside''"

definition topicTempOutgoingInside :: string where
  "topicTempOutgoingInside = ''temp/outgoing/inside''"

definition topicTempOutgoingOutside :: string where
  "topicTempOutgoingOutside = ''temp/outgoing/outside''"

text \<open>\<^verbatim>\<open>fmt.Sprintf(topicRaw, register)\<close> with \<^verbatim>\<open>topicRaw = "raw/%x"\<close>.\<close>

definition topicRaw :: "byte \<Rightarrow> string" where
  "topicRaw register = ''raw/'' @ fmt_x register"

text \<open>
  The two map literals, as association lists in the order of the source. Go refuses a
  map literal with a repeated constant key, so the keys of each list are distinct in
  every program that compiles.
\<close>

definition topicMapOld :: "Vallox \<Rightarrow> (byte \<times> string) list" where
  "topicMapOld vx =
     [(FanSpeed vx, topicFanSpeed),
      (TempIncomingInside vx, topicTempIncomingIside),
      (TempIncomingOutside vx, topicTempIncomingOutside),
      (TempOutgoingInside vx, topicTempOutgoingInside),
      (TempOutgoingOutside vx, topicTempOutgoingOutside)]"

definition topicMapNew :: "Vallox \<Rightarrow> (byte \<times> string) list" where
  "topicMapNew vx =
     [(FanSpeed vx, topicFanSpeed),
      (TempIncomingInsideNew vx, topicTempIncomingIside),
      (TempIncomingOutsideNew vx, topicTempIncomingOutside),
      (TempOutgoingInsideNew vx, topicTempOutgoingInside),
      (TempOutgoingOutsideNew vx, topicTempOutgoingOutside)]"

text \<open>The choice made in \<^verbatim>\<open>init\<close>.\<close>

definition topicMap :: "Vallox \<Rightarrow> Config \<Rightarrow> (byte \<times> string) list" where
  "topicMap vx cfg = (if NewProtocol cfg then topicMapNew vx else topicMapOld vx)"

definition toUid :: "Config \<Rightarrow> string \<Rightarrow> string" where
  "toUid cfg uid = DeviceId cfg @ ''_'' @ uid"

definition topic :: "Config \<Rightarrow> string \<Rightarrow> string" where
  "topic cfg t = DeviceId cfg @ ''/'' @ t"

section \<open>State and effects\<close>

text \<open>
  What the gateway sends out is a list of effects, in the order of the calls. A discovery
  payload is the JSON that \<^verbatim>\<open>discoveryMsg(uid, name, stateTopic, commandTopic)\<close> builds;
  the JSON itself is not expanded, the payload keeps the four arguments.
\<close>

datatype payload =
    Text string
  | DiscoveryMsg string string string string

datatype effect =
    Publish string payload
  | Query byte
  | SetSpeed byte
  | Sleep int

datatype log = Info string | Error string

record cacheEntry =
  entry_time :: time
  entry_value :: Event

text \<open>
  The package-level variables of \<^verbatim>\<open>main.go\<close>, the cache that \<^verbatim>\<open>main\<close> owns, the three
  buffered channels (each \<^verbatim>\<open>make(chan _, 10)\<close>, oldest element first), and the goroutines
  of \<^verbatim>\<open>sendSpeed\<close> that sleep before they send again (\<open>retries\<close>: for each one the
  earliest instant at which its sleep of one second is over). \<open>out\<close> is the list of
  effects so far, \<open>logs\<close> the lines written through \<^verbatim>\<open>logInfo\<close> and \<^verbatim>\<open>logError\<close>. The
  lines of \<^verbatim>\<open>logDebug\<close> are not modelled: that logger discards them unless the debug
  setting is on, and nothing reads them.

  \<^verbatim>\<open>announced\<close> is a \<^verbatim>\<open>map[string]any\<close> whose values are all \<^verbatim>\<open>true\<close>: a set of keys.
\<close>

record state =
  cache :: "byte \<rightharpoonup> cacheEntry"
  announced :: "string set"
  updateSpeed :: byte
  updateSpeedRequested :: time
  currentSpeed :: byte
  currentSpeedUpdated :: time
  speedUpdateRequest :: "byte list"
  speedUpdateSend :: "byte list"
  homeassistantStatus :: "string list"
  retries :: "time list"
  out :: "effect list"
  logs :: "log list"

definition chanCap :: nat where
  "chanCap = 10"

section \<open>Publishing and discovery\<close>

text \<open>
  \<^verbatim>\<open>publish\<close> hands the message to the broker client. The goroutine that waits for the
  token only logs a failure of the broker and is not modelled.
\<close>

definition emit :: "effect \<Rightarrow> state \<Rightarrow> state" where
  "emit x s = s\<lparr>out := out s @ [x]\<rparr>"

definition logInfo :: "string \<Rightarrow> state \<Rightarrow> state" where
  "logInfo msg s = s\<lparr>logs := logs s @ [Info msg]\<rparr>"

definition logError :: "string \<Rightarrow> state \<Rightarrow> state" where
  "logError msg s = s\<lparr>logs := logs s @ [Error msg]\<rparr>"

definition publish :: "string \<Rightarrow> payload \<Rightarrow> state \<Rightarrow> state" where
  "publish t msg s = emit (Publish t msg) s"

definition publishValue :: "Vallox \<Rightarrow> Config \<Rightarrow> Event \<Rightarrow> state \<Rightarrow> state" where
  "publishValue vx cfg event s =
     (let s1 = (case map_of (topicMap vx cfg) (Register event) of
                  Some t \<Rightarrow> publish (topic cfg t) (Text (fmt_d (Value event))) s
                | None \<Rightarrow> s)
      in if EnableRaw cfg
         then publish (topic cfg (topicRaw (Register event)))
                (Text (fmt_d (uint (RawValue event)))) s1
         else s1)"

definition publishDiscovery ::
  "Config \<Rightarrow> string \<Rightarrow> string \<Rightarrow> string \<Rightarrow> string \<Rightarrow> string \<Rightarrow> state \<Rightarrow> state" where
  "publishDiscovery cfg etype uid name stateTopic cmdTopic s =
     (let discoveryTopic = ''homeassistant/'' @ etype @ ''/'' @ toUid cfg uid @ ''/config''
      in if stateTopic \<in> announced s then s
         else publish discoveryTopic (DiscoveryMsg uid name stateTopic cmdTopic)
                (s\<lparr>announced := insert stateTopic (announced s)\<rparr>))"

definition publishSensor :: "Config \<Rightarrow> string \<Rightarrow> string \<Rightarrow> string \<Rightarrow> state \<Rightarrow> state" where
  "publishSensor cfg uid name stateTopic s =
     publishDiscovery cfg ''sensor'' uid name stateTopic '''' s"

definition publishSelect ::
  "Config \<Rightarrow> string \<Rightarrow> string \<Rightarrow> string \<Rightarrow> string \<Rightarrow> state \<Rightarrow> state" where
  "publishSelect cfg uid name stateTopic cmdTopic s =
     publishDiscovery cfg ''select'' uid name stateTopic cmdTopic s"

text \<open>The message that \<^verbatim>\<open>publishDiscovery\<close> publishes when it publishes.\<close>

definition descriptor :: "Config \<Rightarrow> string \<Rightarrow> string \<Rightarrow> string \<Rightarrow> string \<Rightarrow> string \<Rightarrow> effect" where
  "descriptor cfg etype uid name stateTopic cmdTopic =
     Publish (''homeassistant/'' @ etype @ ''/'' @ toUid cfg uid @ ''/config'')
       (DiscoveryMsg uid name stateTopic cmdTopic)"

definition rawDescriptor :: "Config \<Rightarrow> byte \<Rightarrow> effect" where
  "rawDescriptor cfg register =
     descriptor cfg ''sensor'' (''raw_'' @ fmt_x register) (''raw '' @ fmt_x register)
       (topicRaw register) []"

definition announceRawData :: "Config \<Rightarrow> byte \<Rightarrow> state \<Rightarrow> state" where
  "announceRawData cfg register s =
     (if \<not> EnableRaw cfg then s
      else publishSensor cfg (''raw_'' @ fmt_x register) (''raw '' @ fmt_x register)
             (topicRaw register) s)"

text \<open>
  \<^verbatim>\<open>for reg := range cache\<close> visits the keys of the cache in an order that Go leaves
  open: the order is the argument \<open>regs\<close>, a list of the keys of the cache.
\<close>

definition announceMeToMqttDiscovery :: "Config \<Rightarrow> byte list \<Rightarrow> state \<Rightarrow> state" where
  "announceMeToMqttDiscovery cfg regs s =
     (let s0 = s\<lparr>announced := {}\<rparr>;
          s1 = publishSensor cfg ''fan_speed'' ''speed'' topicFanSpeed s0;
          s2 = publishSelect cfg ''fan_select'' ''speed select'' topicFanSpeed topicFanSpeedSet s1;
          s3 = publishSensor cfg ''temp_incoming_outside'' ''outdoor temperature''
                 topicTempIncomingOutside s2;
          s4 = publishSensor cfg ''temp_incoming_insise'' ''incoming temperature''
                 topicTempIncomingIside s3;
          s5 = publishSensor cfg ''temp_outgoing_inside'' ''interior temperature''
                 topicTempOutgoingInside s4;
          s6 = publishSensor cfg ''temp_outgoing_outside'' ''exhaust temperature''
                 topicTempOutgoingOutside s5
      in fold (announceRawData cfg) regs s6)"

text \<open>
  The descriptors of the five sensors that \<^verbatim>\<open>announceMeToMqttDiscovery\<close> announces through
  \<^verbatim>\<open>publishSensor\<close>, in the order of the calls.
\<close>

definition sensorDescriptors :: "Config \<Rightarrow> effect list" where
  "sensorDescriptors cfg =
     [descriptor cfg ''sensor'' ''fan_speed'' ''speed'' topicFanSpeed [],
      descriptor cfg ''sensor'' ''temp_incoming_outside'' ''outdoor temperature''
        topicTempIncomingOutside [],
      descriptor cfg ''sensor'' ''temp_incoming_insise'' ''incoming temperature''
        topicTempIncomingIside [],
      descriptor cfg ''sensor'' ''temp_outgoing_inside'' ''interior temperature''
        topicTempOutgoingInside [],
      descriptor cfg ''sensor'' ''temp_outgoing_outside'' ''exhaust temperature''
        topicTempOutgoingOutside []]"

section \<open>The handler of bus events\<close>

text \<open>
  \<^verbatim>\<open>handleValloxEvent\<close>. The clock is read twice: \<open>t_since\<close> by
  \<^verbatim>\<open>time.Since(val.time)\<close>, \<open>t_now\<close> by \<^verbatim>\<open>time.Now()\<close>. The two early returns give the
  state back unchanged. \<^verbatim>\<open>go publishValue(...)\<close> starts a goroutine that publishes; its
  messages are appended where the goroutine starts.
\<close>

definition handleValloxEvent ::
  "Vallox \<Rightarrow> Config \<Rightarrow> Event \<Rightarrow> time \<Rightarrow> time \<Rightarrow> state \<Rightarrow> state" where
  "handleValloxEvent vx cfg e t_since t_now s =
     (if \<not> ForMe vx e then s
      else
        (case (case cache s (Register e) of
                 None \<Rightarrow> Some (announceRawData cfg (Register e) s)
               | Some val \<Rightarrow>
                   if RawValue (entry_value val) = RawValue e
                      \<and> Since t_since (entry_time val) < 1 * Minute
                   then None
                   else Some s) of
           None \<Rightarrow> s
         | Some s1 \<Rightarrow>
             (let cached = \<lparr>entry_time = t_now, entry_value = e\<rparr>;
                  s2 = s1\<lparr>cache := (cache s1)(Register e \<mapsto> cached)\<rparr>;
                  s3 = (if Register e = FanSpeed vx
                        then s2\<lparr>currentSpeed := word_of_int (Value e),
                                currentSpeedUpdated := entry_time cached\<rparr>
                        else s2)
              in publishValue vx cfg (entry_value cached) s3)))"

text \<open>
  The condition of the handler's second early return, as a predicate of the state, the
  event and the clock reading: the cache holds the register with the same raw value, and
  the entry is less than one minute old.
\<close>

definition duplicateFresh :: "state \<Rightarrow> Event \<Rightarrow> time \<Rightarrow> bool" where
  "duplicateFresh s e t =
     (case cache s (Register e) of
        None \<Rightarrow> False
      | Some val \<Rightarrow> RawValue (entry_value val) = RawValue e \<and> Since t (entry_time val) < 1 * Minute)"

section \<open>The speed debouncer\<close>

text \<open>
  \<^verbatim>\<open>hasSameRecentSpeed\<close> reads the clock once (\<open>t\<close>).
\<close>

definition hasSameRecentSpeed :: "byte \<Rightarrow> time \<Rightarrow> state \<Rightarrow> bool" where
  "hasSameRecentSpeed request t s =
     (currentSpeed s = request \<and> Since t (currentSpeedUpdated s) < 10 * Second)"

text \<open>
  \<^verbatim>\<open>sendSpeed\<close> reads the clock up to three times: \<open>t1\<close> for the age of the request,
  \<open>t2\<close> for the age of the confirmed speed, \<open>t3\<close> for \<^verbatim>\<open>time.Now()\<close>. In the first
  branch it starts a goroutine that sleeps 1000 ms and then sends \<^verbatim>\<open>updateSpeed\<close> on
  \<^verbatim>\<open>speedUpdateSend\<close>: the goroutine is added to \<open>retries\<close> with the instant
  \<open>t1 + 1000 ms\<close>, before which it cannot send; its send is the step \<open>retryWake\<close>.
\<close>

definition sendSpeed :: "Vallox \<Rightarrow> time \<Rightarrow> time \<Rightarrow> time \<Rightarrow> state \<Rightarrow> state" where
  "sendSpeed vx t1 t2 t3 s =
     (if Since t1 (updateSpeedRequested s) < 5 * Second
      then s\<lparr>retries := retries s @ [t1 + 1000 * Millisecond]\<rparr>
      else if currentSpeed s \<noteq> updateSpeed s \<or> Since t2 (currentSpeedUpdated s) > 10 * Second
      then (let s1 = s\<lparr>currentSpeed := updateSpeed s\<rparr>;
                s2 = s1\<lparr>currentSpeedUpdated := t3\<rparr>;
                s3 = emit (SetSpeed (updateSpeed s2)) s2;
                s4 = emit (Sleep (20 * Millisecond)) s3
            in emit (Query (FanSpeed vx)) s4)
      else s)"

text \<open>
  A step that cannot be taken: a receive from an empty channel is not ready, a send to a
  channel that holds ten elements blocks.
\<close>

datatype stuck = NotReady | Blocked

definition retryWake :: "nat \<Rightarrow> time \<Rightarrow> state \<Rightarrow> stuck + state" where
  "retryWake i t s =
     (if i < length (retries s) \<and> retries s ! i \<le> t
      then (if length (speedUpdateSend s) < chanCap
            then Inr (s\<lparr>retries := take i (retries s) @ drop (Suc i) (retries s),
                        speedUpdateSend := speedUpdateSend s @ [updateSpeed s]\<rparr>)
            else Inl Blocked)
      else Inl NotReady)"

section \<open>The scheduled refresh\<close>

text \<open>
  \<^verbatim>\<open>queryValues\<close>. \<open>queryRegister\<close> is the body of its loop.
  \<^verbatim>\<open>for register, _ := range topicMap\<close> visits the keys of the topic map; Go leaves the
  order open, the model visits them in the order of the map literal (the lemma
  \<open>query_loop\<close> below describes the loop for every order).
  \<^verbatim>\<open>cached.time.Before(validTime)\<close> is a strict comparison.
\<close>

definition queryRegister :: "time \<Rightarrow> byte \<Rightarrow> state \<Rightarrow> state" where
  "queryRegister validTime register s =
     (case cache s register of
        None \<Rightarrow> emit (Query register) s
      | Some cached \<Rightarrow>
          if entry_time cached < validTime then emit (Query register) s else s)"

definition queryValues :: "Vallox \<Rightarrow> Config \<Rightarrow> time \<Rightarrow> state \<Rightarrow> state" where
  "queryValues vx cfg now s =
     (let validTime = now + (- 15) * Minute
      in fold (queryRegister validTime) (map fst (topicMap vx cfg)) s)"

text \<open>
  The condition under which the loop of \<^verbatim>\<open>queryValues\<close> queries a register: the cache
  has no entry for it, or the entry is older than \<open>validTime\<close>.
\<close>

definition absentOrOld :: "state \<Rightarrow> time \<Rightarrow> byte \<Rightarrow> bool" where
  "absentOrOld s validTime register =
     (case cache s register of
        None \<Rightarrow> True
      | Some cached \<Rightarrow> entry_time cached < validTime)"

section \<open>Inbound messages\<close>

text \<open>
  Modelled from the spec: \<^verbatim>\<open>strconv.ParseInt\<close> is a function of Go's standard library,
  not of this repository, and is not under src/. The spec says of it only that a payload
  that is not a number is an error. The definitions below follow the library's algorithm
  (\<^verbatim>\<open>ParseInt\<close>, \<^verbatim>\<open>ParseUint\<close>, \<^verbatim>\<open>underscoreOK\<close> and \<^verbatim>\<open>lower\<close> of \<^verbatim>\<open>strconv/atoi.go\<close>): an
  optional sign; with base 0 the base is taken from the prefix (\<^verbatim>\<open>0b\<close>, \<^verbatim>\<open>0o\<close>, \<^verbatim>\<open>0x\<close>,
  a leading \<^verbatim>\<open>0\<close> for octal, else decimal) and underscores may separate digits; the digits
  are accumulated in a 64-bit unsigned integer (here an integer with the wrap-around
  written out) with a range check against the bit size.
  Both functions return a value and an error, as in Go. The \<^verbatim>\<open>switch\<close> of the digit loop
  that sets the digit \<^verbatim>\<open>d\<close> or returns a syntax error is \<open>digitValue\<close>.
\<close>

datatype NumError = ErrSyntax | ErrRange | ErrBase | ErrBitSize

definition ord :: "char \<Rightarrow> int" where
  "ord c = of_char c"

definition lower :: "char \<Rightarrow> int" where
  "lower c = or (ord c) 32"

definition IntSize :: int where
  "IntSize = 64"

definition digitValue :: "char \<Rightarrow> int option" where
  "digitValue c =
     (if ord CHR ''0'' \<le> ord c \<and> ord c \<le> ord CHR ''9'' then Some (ord c - ord CHR ''0'')
      else if ord CHR ''a'' \<le> lower c \<and> lower c \<le> ord CHR ''z''
      then Some (lower c - ord CHR ''a'' + 10)
      else None)"

fun digits_loop ::
  "bool \<Rightarrow> int \<Rightarrow> int \<Rightarrow> int \<Rightarrow> string \<Rightarrow> int \<Rightarrow> bool \<Rightarrow> (int \<times> NumError) + (int \<times> bool)" where
  "digits_loop base0 base cutoff maxVal [] n underscores = Inr (n, underscores)"
| "digits_loop base0 base cutoff maxVal (c # cs) n underscores =
     (if c = CHR ''_'' \<and> base0 then digits_loop base0 base cutoff maxVal cs n True
      else
        (case digitValue c of
           None \<Rightarrow> Inl (0, ErrSyntax)
         | Some d \<Rightarrow>
             if d \<ge> base then Inl (0, ErrSyntax)
             else if n \<ge> cutoff then Inl (maxVal, ErrRange)
             else (let n' = (n * base) mod 2 ^ 64;
                       n1 = (n' + d) mod 2 ^ 64
                   in if n1 < n' \<or> n1 > maxVal then Inl (maxVal, ErrRange)
                      else digits_loop base0 base cutoff maxVal cs n1 underscores)))"

fun underscore_loop :: "bool \<Rightarrow> char \<Rightarrow> string \<Rightarrow> bool" where
  "underscore_loop hex saw [] = (saw \<noteq> CHR ''_'')"
| "underscore_loop hex saw (c # cs) =
     (if (ord CHR ''0'' \<le> ord c \<and> ord c \<le> ord CHR ''9'')
         \<or> (hex \<and> ord CHR ''a'' \<le> lower c \<and> lower c \<le> ord CHR ''f'')
      then underscore_loop hex (CHR ''0'') cs
      else if c = CHR ''_''
      then (if saw \<noteq> CHR ''0'' then False else underscore_loop hex (CHR ''_'') cs)
      else if saw = CHR ''_'' then False
      else underscore_loop hex (CHR ''!'') cs)"

definition underscoreOK :: "string \<Rightarrow> bool" where
  "underscoreOK s =
     (let s1 = (if length s \<ge> 1 \<and> (hd s = CHR ''-'' \<or> hd s = CHR ''+'') then tl s else s)
      in if length s1 \<ge> 2 \<and> hd s1 = CHR ''0''
            \<and> (lower (s1 ! 1) = ord CHR ''b'' \<or> lower (s1 ! 1) = ord CHR ''o''
                \<or> lower (s1 ! 1) = ord CHR ''x'')
         then underscore_loop (lower (s1 ! 1) = ord CHR ''x'') (CHR ''0'') (drop 2 s1)
         else underscore_loop False (CHR ''^'') s1)"

definition ParseUint :: "string \<Rightarrow> int \<Rightarrow> int \<Rightarrow> int \<times> NumError option" where
  "ParseUint s base bitSize =
     (if s = [] then (0, Some ErrSyntax)
      else
        (case (if 2 \<le> base \<and> base \<le> 36 then Some (base, s)
               else if base = 0
               then (if hd s = CHR ''0''
                     then (if length s \<ge> 3 \<and> lower (s ! 1) = ord CHR ''b'' then Some (2, drop 2 s)
                           else if length s \<ge> 3 \<and> lower (s ! 1) = ord CHR ''o'' then Some (8, drop 2 s)
                           else if length s \<ge> 3 \<and> lower (s ! 1) = ord CHR ''x'' then Some (16, drop 2 s)
                           else Some (8, drop 1 s))
                     else Some (10, s))
               else None) of
           None \<Rightarrow> (0, Some ErrBase)
         | Some (b, digits) \<Rightarrow>
             if bitSize < 0 \<or> bitSize > 64 then (0, Some ErrBitSize)
             else (let bits = (if bitSize = 0 then IntSize else bitSize);
                       cutoff = (2 ^ 64 - 1) div b + 1;
                       maxVal = 2 ^ nat bits - 1
                   in case digits_loop (base = 0) b cutoff maxVal digits 0 False of
                        Inl (v, err) \<Rightarrow> (v, Some err)
                      | Inr (n, underscores) \<Rightarrow>
                          if underscores \<and> \<not> underscoreOK s then (0, Some ErrSyntax)
                          else (n, None))))"

definition ParseInt :: "string \<Rightarrow> int \<Rightarrow> int \<Rightarrow> int \<times> NumError option" where
  "ParseInt s base bitSize =
     (if s = [] then (0, Some ErrSyntax)
      else
        (let neg = (hd s = CHR ''-'');
             s1 = (if hd s = CHR ''+'' \<or> hd s = CHR ''-'' then tl s else s);
             (un, err) = ParseUint s1 base bitSize
         in if err \<noteq> None \<and> err \<noteq> Some ErrRange then (0, err)
            else (let bits = (if bitSize = 0 then IntSize else bitSize);
                      cutoff = 2 ^ nat (bits - 1)
                  in if \<not> neg \<and> un \<ge> cutoff then (cutoff - 1, Some ErrRange)
                     else if neg \<and> un > cutoff then (- cutoff, Some ErrRange)
                     else (if neg then - un else un, None))))"

text \<open>
  \<^verbatim>\<open>changeSpeedMessage\<close>, the handler of the command topic, called by the broker client
  with the payload \<open>body\<close> of a message that arrived on topic \<open>tpc\<close>. \<^verbatim>\<open>byte(spd)\<close> keeps
  the low eight bits. The send on \<^verbatim>\<open>speedUpdateRequest\<close> blocks when the channel is full.
\<close>

definition changeSpeedMessage :: "string \<Rightarrow> string \<Rightarrow> state \<Rightarrow> stuck + state" where
  "changeSpeedMessage body tpc s =
     (let s1 = logInfo (''received speed change '' @ body @ '' to '' @ tpc) s;
          (spd, err) = ParseInt body 0 8
      in if err \<noteq> None
         then Inr (logError (''cannot parse speed from body '' @ body) s1)
         else if length (speedUpdateRequest s1) < chanCap
         then Inr (s1\<lparr>speedUpdateRequest := speedUpdateRequest s1 @ [word_of_int spd]\<rparr>)
         else Inl Blocked)"

definition haStatusMessage :: "string \<Rightarrow> state \<Rightarrow> stuck + state" where
  "haStatusMessage body s =
     (if length (homeassistantStatus s) < chanCap
      then Inr (s\<lparr>homeassistantStatus := homeassistantStatus s @ [body]\<rparr>)
      else Inl Blocked)"

section \<open>The dispatcher\<close>

text \<open>
  One step of the running program. The first six are the cases of the \<^verbatim>\<open>select\<close> in the
  loop of \<^verbatim>\<open>main\<close>, each with the clock readings of its body (and, for the announcement
  pass, the order in which \<^verbatim>\<open>range\<close> visits the keys of the cache); the bus event of the
  first case comes from the driver's channel. The last three are steps of other goroutines: a retry goroutine of
  \<^verbatim>\<open>sendSpeed\<close> that ends its sleep (the index of the goroutine in \<open>retries\<close>, the
  instant), and the two callbacks of the broker client.

  \<^verbatim>\<open>go announceMeToMqttDiscovery(mqtt, cache)\<close> runs in a goroutine of its own; the model
  runs the whole pass at the point where the goroutine starts. The two timers
  (\<^verbatim>\<open>time.Tick\<close>, \<^verbatim>\<open>time.After\<close>) are made anew on every pass of the loop; the model lets a
  timer step happen at any point of a run.
\<close>

datatype step =
    RecvValloxEvent Event time time
  | RecvSpeedUpdateRequest time time
  | RecvSpeedUpdateSend time time time
  | RecvHomeassistantStatus "byte list"
  | TimerTick time
  | TimerAfter time
  | RetryWake nat time
  | MsgChangeSpeed string string
  | MsgHaStatus string

fun main_step :: "Vallox \<Rightarrow> Config \<Rightarrow> step \<Rightarrow> state \<Rightarrow> stuck + state" where
  "main_step vx cfg (RecvValloxEvent event t_since t_now) s =
     Inr (handleValloxEvent vx cfg event t_since t_now s)"
| "main_step vx cfg (RecvSpeedUpdateRequest t t_now) s =
     (case speedUpdateRequest s of
        [] \<Rightarrow> Inl NotReady
      | request # rest \<Rightarrow>
          (let s1 = s\<lparr>speedUpdateRequest := rest\<rparr>
           in if hasSameRecentSpeed request t s1 then Inr s1
              else (let s2 = s1\<lparr>updateSpeed := request\<rparr>;
                        s3 = s2\<lparr>updateSpeedRequested := t_now\<rparr>
                    in if length (speedUpdateSend s3) < chanCap
                       then Inr (s3\<lparr>speedUpdateSend := speedUpdateSend s3 @ [request]\<rparr>)
                       else Inl Blocked)))"
| "main_step vx cfg (RecvSpeedUpdateSend t1 t2 t3) s =
     (case speedUpdateSend s of
        [] \<Rightarrow> Inl NotReady
      | x # rest \<Rightarrow> Inr (sendSpeed vx t1 t2 t3 (s\<lparr>speedUpdateSend := rest\<rparr>)))"
| "main_step vx cfg (RecvHomeassistantStatus regs) s =
     (case homeassistantStatus s of
        [] \<Rightarrow> Inl NotReady
      | status # rest \<Rightarrow>
          (let s1 = s\<lparr>homeassistantStatus := rest\<rparr>
           in if status = ''online'' then Inr (announceMeToMqttDiscovery cfg regs s1)
              else if status \<noteq> ''offline''
              then Inr (logInfo (''unknown HA status message '' @ status) s1)
              else Inr s1))"
| "main_step vx cfg (TimerTick now) s = Inr (queryValues vx cfg now s)"
| "main_step vx cfg (TimerAfter now) s = Inr (queryValues vx cfg now s)"
| "main_step vx cfg (RetryWake i t) s = retryWake i t s"
| "main_step vx cfg (MsgChangeSpeed body tpc) s = changeSpeedMessage body tpc s"
| "main_step vx cfg (MsgHaStatus body) s = haStatusMessage body s"

text \<open>A run: the steps in order, stopping at the first one that cannot be taken.\<close>

fun main_loop :: "Vallox \<Rightarrow> Config \<Rightarrow> step list \<Rightarrow> state \<Rightarrow> stuck + state" where
  "main_loop vx cfg [] s = Inr s"
| "main_loop vx cfg (x # xs) s =
     (case main_step vx cfg x s of
        Inl err \<Rightarrow> Inl err
      | Inr s' \<Rightarrow> main_loop vx cfg xs s')"

text \<open>The bus writes among the effects of a state.\<close>

fun is_SetSpeed :: "effect \<Rightarrow> bool" where
  "is_SetSpeed (SetSpeed v) = True"
| "is_SetSpeed x = False"

definition busWrites :: "state \<Rightarrow> effect list" where
  "busWrites s = filter is_SetSpeed (out s)"

text \<open>
  Steps of a run in which no bus event and no command arrives: the attempts to write
  (receives from \<^verbatim>\<open>speedUpdateSend\<close>), the retry goroutines that end their sleep, and
  the two timers of the loop.
\<close>

fun isQuietStep :: "step \<Rightarrow> bool" where
  "isQuietStep (RecvSpeedUpdateSend t1 t2 t3) = True"
| "isQuietStep (RetryWake i t) = True"
| "isQuietStep (TimerTick now) = True"
| "isQuietStep (TimerAfter now) = True"
| "isQuietStep x = False"

text \<open>
  Two conditions on the clock readings of an attempt to write. \<open>attemptBefore T\<close>: the
  attempt reads the age of the request before the instant \<open>T\<close>. \<open>attemptWithin T\<close>: the
  three readings of the attempt are in the order in which they are made, and the
  second one (the age of the confirmed speed) is not later than \<open>T\<close>.
\<close>

fun attemptBefore :: "time \<Rightarrow> step \<Rightarrow> bool" where
  "attemptBefore T (RecvSpeedUpdateSend t1 t2 t3) = (t1 < T)"
| "attemptBefore T x = True"

fun attemptWithin :: "time \<Rightarrow> step \<Rightarrow> bool" where
  "attemptWithin T (RecvSpeedUpdateSend t1 t2 t3) = (t1 \<le> t2 \<and> t2 \<le> t3 \<and> t2 \<le> T)"
| "attemptWithin T x = True"

text \<open>
  The attempts that are still to come: the elements of \<^verbatim>\<open>speedUpdateSend\<close> and the retry
  goroutines that sleep.
\<close>

definition pending :: "state \<Rightarrow> nat" where
  "pending s = length (speedUpdateSend s) + length (retries s)"

section \<open>The first version of the handler\<close>

text \<open>
  The oldest \<^verbatim>\<open>main.go\<close> of the repository has the handler \<^verbatim>\<open>handleEvent\<close> with
  \<^verbatim>\<open>verifyOldValues\<close>. It has no announced set and no raw setting: it always announces
  and always publishes the raw value. The clock is read once in \<^verbatim>\<open>handleEvent\<close> (\<open>now\<close>)
  and once in \<^verbatim>\<open>verifyOldValues\<close>. Its discovery payload is built from the unique id,
  the name, the device class and the state topic.
\<close>

definition topicMap_old :: "Vallox \<Rightarrow> (byte \<times> string) list" where
  "topicMap_old vx =
     [(FanSpeed vx, ''vallox/fan/speed''),
      (TempIncomingInside vx, ''vallox/temp/incoming/inside''),
      (TempIncomingOutside vx, ''vallox/temp/incoming/outside''),
      (TempOutgoingInside vx, ''vallox/temp/outgoing/inside''),
      (TempOutgoingOutside vx, ''vallox/temp/outgoing/outside'')]"

definition publishValue_old :: "Vallox \<Rightarrow> Event \<Rightarrow> state \<Rightarrow> state" where
  "publishValue_old vx event s =
     (let s1 = (case map_of (topicMap_old vx) (Register event) of
                  Some t \<Rightarrow> publish t (Text (fmt_d (Value event))) s
                | None \<Rightarrow> s)
      in publish (''vallox/raw/'' @ fmt_x (Register event))
           (Text (fmt_d (uint (RawValue event)))) s1)"

definition publishDiscovery_old :: "string \<Rightarrow> string \<Rightarrow> string \<Rightarrow> string \<Rightarrow> state \<Rightarrow> state" where
  "publishDiscovery_old uid name deviceClass stateTopic s =
     publish (''homeassistant/sensor/'' @ uid @ ''/config'')
       (DiscoveryMsg uid name deviceClass stateTopic) s"

definition announceRawData_old :: "byte \<Rightarrow> state \<Rightarrow> state" where
  "announceRawData_old register s =
     publishDiscovery_old (''vallox_raw_'' @ fmt_x register) (''Vallox raw '' @ fmt_x register)
       [] (''vallox/raw/'' @ fmt_x register) s"

definition verifyOldValues :: "Vallox \<Rightarrow> time \<Rightarrow> state \<Rightarrow> state" where
  "verifyOldValues vx now s =
     (let validTime = now + (- 15) * Minute
      in case cache s (FanSpeed vx) of
           Some cached \<Rightarrow>
             if entry_time cached < validTime then emit (Query (FanSpeed vx)) s else s
         | None \<Rightarrow> emit (Query (FanSpeed vx)) s)"

definition handleEvent :: "Vallox \<Rightarrow> Event \<Rightarrow> time \<Rightarrow> time \<Rightarrow> state \<Rightarrow> state" where
  "handleEvent vx e now t_verify s =
     (if \<not> ForMe vx e then s
      else
        (let validTime = now + (- 15) * Minute
         in case (case cache s (Register e) of
                    None \<Rightarrow> Inr (announceRawData_old (Register e) s)
                  | Some val \<Rightarrow>
                      if RawValue (entry_value val) = RawValue e \<and> entry_time val > validTime
                      then Inl (verifyOldValues vx t_verify s)
                      else Inr s) of
              Inl s' \<Rightarrow> s'
            | Inr s1 \<Rightarrow>
                (let cached = \<lparr>entry_time = now, entry_value = e\<rparr>;
                     s2 = s1\<lparr>cache := (cache s1)(Register e \<mapsto> cached)\<rparr>
                 in publishValue_old vx (entry_value cached) s2)))"

section \<open>Sample data\<close>

text \<open>
  A configuration, a driver and a start state for the worked examples. The register
  numbers of the sample driver are nine distinct bytes; its address test accepts every
  event. The start state \<open>s_init\<close> is the state of the program before the announcement
  pass that \<^verbatim>\<open>main\<close> runs first: the zero values of Go, empty channels and an empty cache
  (the zero \<^verbatim>\<open>time.Time\<close> lies far before any reading of the clock). \<open>s_started\<close> is the
  state in which the loop of \<^verbatim>\<open>main\<close> begins: that pass has run on the empty cache, the
  five sensors are announced.
\<close>

definition cfg0 :: Config where
  "cfg0 = \<lparr>DeviceId = ''vallox'', DeviceName = ''Vallox'', Debug = False, EnableWrite = True,
           SpeedMin = 1, EnableRaw = False, ObjectId = True, NewProtocol = False\<rparr>"

definition vx0 :: Vallox where
  "vx0 = \<lparr>FanSpeed = 0x29, TempIncomingInside = 0x5b, TempIncomingOutside = 0x58,
          TempOutgoingInside = 0x5a, TempOutgoingOutside = 0x5c,
          TempIncomingInsideNew = 0x35, TempIncomingOutsideNew = 0x32,
          TempOutgoingInsideNew = 0x34, TempOutgoingOutsideNew = 0x33,
          ForMe = (\<lambda>e. True)\<rparr>"

definition zeroTime :: time where
  "zeroTime = - (2 ^ 62)"

definition s_init :: state where
  "s_init = \<lparr>cache = Map.empty, announced = {}, updateSpeed = 0,
             updateSpeedRequested = zeroTime, currentSpeed = 0,
             currentSpeedUpdated = zeroTime, speedUpdateRequest = [], speedUpdateSend = [],
             homeassistantStatus = [], retries = [], out = [], logs = []\<rparr>"

definition s_started :: "Config \<Rightarrow> state" where
  "s_started cfg =
     s_init\<lparr>announced := {topicFanSpeed, topicTempIncomingOutside, topicTempIncomingIside,
                           topicTempOutgoingInside, topicTempOutgoingOutside},
            out := sensorDescriptors cfg\<rparr>"

definition ev_fan3 :: Event where
  "ev_fan3 = \<lparr>Register = 0x29, RawValue = 3, Value = 3\<rparr>"

text \<open>The start state after a fan-speed event with raw value 3 was stored at instant 0.\<close>

definition s_fan3 :: state where
  "s_fan3 = s_init\<lparr>cache := [0x29 \<mapsto> \<lparr>entry_time = 0, entry_value = ev_fan3\<rparr>],
                   currentSpeed := 3, currentSpeedUpdated := 0\<rparr>"

text \<open>
  The sample configuration with the raw setting on; a state whose cache holds the fan
  speed and one more register, 0x06, both stored at instant 0; and a state in which
  everything was announced and the platform's \<open>online\<close> message waits in its channel.
\<close>

definition cfg_raw :: Config where
  "cfg_raw = cfg0\<lparr>EnableRaw := True\<rparr>"

definition ev_raw6 :: Event where
  "ev_raw6 = \<lparr>Register = 0x06, RawValue = 1, Value = 1\<rparr>"

definition s_two :: state where
  "s_two = s_init\<lparr>cache := [0x29 \<mapsto> \<lparr>entry_time = 0, entry_value = ev_fan3\<rparr>,
                            0x06 \<mapsto> \<lparr>entry_time = 0, entry_value = ev_raw6\<rparr>]\<rparr>"

definition s_online :: state where
  "s_online = s_fan3\<lparr>homeassistantStatus := [''online''],
                     announced := {''fan/speed'', ''temp/incoming/outside'',
                                   ''temp/incoming/inside'', ''temp/outgoing/inside'',
                                   ''temp/outgoing/outside'', ''raw/29''}\<rparr>"

text \<open>
  A burst of three commands 4, 5, 6, one per second, while the fan runs at speed 3
  (confirmed at instant 0); one second is \<open>Second\<close>. \<open>burst_B\<close>, \<open>burst_C\<close> and
  \<open>burst_D\<close> are the steps after the first, the second and the third command: each
  command's attempt fires at once and is put off; the three retry goroutines end their
  sleep after 8 seconds, and the three attempts fire.
\<close>

definition s_burst :: state where
  "s_burst = s_fan3\<lparr>speedUpdateRequest := [4, 5, 6]\<rparr>"

definition burst_B :: "step list" where
  "burst_B = [RecvSpeedUpdateSend (1 * Second) (1 * Second) (1 * Second)]"

definition burst_C :: "step list" where
  "burst_C = [RecvSpeedUpdateSend (2 * Second) (2 * Second) (2 * Second)]"

definition burst_D :: "step list" where
  "burst_D =
     [RecvSpeedUpdateSend (3 * Second) (3 * Second) (3 * Second),
      RetryWake 0 (8 * Second), RetryWake 0 (8 * Second), RetryWake 0 (8 * Second),
      RecvSpeedUpdateSend (8 * Second) (8 * Second) (8 * Second),
      TimerAfter (9 * Second),
      RecvSpeedUpdateSend (9 * Second) (9 * Second) (9 * Second),
      RecvSpeedUpdateSend (9 * Second) (9 * Second) (9 * Second)]"

definition s_burst_done :: state where
  "s_burst_done =
     s_fan3\<lparr>updateSpeed := 6, updateSpeedRequested := 3 * Second, currentSpeed := 6,
            currentSpeedUpdated := 8 * Second,
            out := [SetSpeed 6, Sleep (20 * Millisecond), Query 0x29,
                    Query 0x5b, Query 0x58, Query 0x5a, Query 0x5c]\<rparr>"

text \<open>
  The same burst with the commands 4, 5, 3: the third command asks for the speed the fan
  was confirmed at three seconds before.
\<close>

definition s_back :: state where
  "s_back = s_fan3\<lparr>speedUpdateRequest := [4, 5, 3]\<rparr>"

definition back_steps :: "step list" where
  "back_steps =
     [RecvSpeedUpdateRequest (1 * Second) (1 * Second),
      RecvSpeedUpdateSend (1 * Second) (1 * Second) (1 * Second),
      RecvSpeedUpdateRequest (2 * Second) (2 * Second),
      RecvSpeedUpdateSend (2 * Second) (2 * Second) (2 * Second),
      RecvSpeedUpdateRequest (3 * Second) (3 * Second),
      RetryWake 0 (7 * Second), RetryWake 0 (7 * Second),
      RecvSpeedUpdateSend (7 * Second) (7 * Second) (7 * Second),
      RecvSpeedUpdateSend (7 * Second) (7 * Second) (7 * Second)]"

definition s_back_done :: state where
  "s_back_done =
     s_fan3\<lparr>updateSpeed := 5, updateSpeedRequested := 2 * Second, currentSpeed := 5,
            currentSpeedUpdated := 7 * Second,
            out := [SetSpeed 5, Sleep (20 * Millisecond), Query 0x29]\<rparr>"

section \<open>Unfolding rules\<close>

lemmas handler_defs = handleValloxEvent_def publishValue_def publish_def emit_def
  announceRawData_def publishSensor_def publishDiscovery_def Let_def

lemmas sample_defs = cfg0_def vx0_def s_init_def ev_fan3_def s_fan3_def zeroTime_def
  Minute_def Second_def Millisecond_def Since_def chanCap_def cfg_raw_def ev_raw6_def
  s_two_def s_online_def

lemmas burst_defs = s_burst_def burst_B_def burst_C_def burst_D_def s_burst_done_def
  s_back_def back_steps_def s_back_done_def

lemmas fmt_defs = fmt_d_def fmt_x_def fmt_base.simps digit_def

lemmas topic_defs = topicMap_def topicMapOld_def topicMapNew_def topic_def toUid_def topicRaw_def
  topicFanSpeed_def topicFanSpeedSet_def topicTempIncomingIside_def topicTempIncomingOutside_def
  topicTempOutgoingInside_def topicTempOutgoingOutside_def

lemmas parse_defs = ParseInt_def ParseUint_def digitValue_def lower_def ord_def IntSize_def
  underscoreOK_def

section \<open>The handler of bus events: what it does with a duplicate, fresh or stale\<close>

lemma cache_handle_accept:
  assumes "ForMe vx e" and "\<not> duplicateFresh s e t"
  shows "cache (handleValloxEvent vx cfg e t t' s)
         = (cache s)(Register e \<mapsto> \<lparr>entry_time = t', entry_value = e\<rparr>)"
  using assms by (auto simp: handler_defs duplicateFresh_def split: option.splits)

text \<open>
  What an accepted event sends: the messages of \<^verbatim>\<open>publishValue\<close>, after the discovery
  message of the register when \<^verbatim>\<open>announceRawData\<close> sends one.
\<close>

lemma out_handle_accept:
  assumes "ForMe vx e" and "\<not> duplicateFresh s e t"
  shows "out (handleValloxEvent vx cfg e t t' s) =
            out s
            @ (if cache s (Register e) = None \<and> EnableRaw cfg
                  \<and> topicRaw (Register e) \<notin> announced s
               then [rawDescriptor cfg (Register e)]
               else [])
            @ (case map_of (topicMap vx cfg) (Register e) of
                 Some tp \<Rightarrow> [Publish (topic cfg tp) (Text (fmt_d (Value e)))]
               | None \<Rightarrow> [])
            @ (if EnableRaw cfg
               then [Publish (topic cfg (topicRaw (Register e)))
                       (Text (fmt_d (uint (RawValue e))))]
               else [])"
  using assms
  by (auto simp: handler_defs duplicateFresh_def rawDescriptor_def descriptor_def
      split: option.splits)

text \<open>
  Claim C2, as the code has it. An event whose register is cached with the same raw value
  and an entry less than one minute old (the freshness window of \<^verbatim>\<open>handleValloxEvent\<close>)
  leaves the whole state as it was: nothing is published, the cache, the confirmed speed
  and the announced set are unchanged. So when an event for this controller is accepted
  (it is not such a duplicate) and stored at instant \<open>t1'\<close>, an event with the same
  register and raw value that is handled less than one minute after \<open>t1'\<close> changes
  nothing, and the two deliveries together make what the first one makes alone: one
  cache write, the entry of the first delivery, and the messages of one accepted event.
  These are, in this order, the discovery message of the register (when the first
  delivery is the first event of the register, the raw setting is on and the raw topic
  is not yet in the announced set), the value on the register's topic (when the topic
  map has the register) and the raw value on the raw topic (when the raw setting is on):
  between none and three messages, and not one in every case.
\<close>

theorem duplicate_fresh_noop:
  "(duplicateFresh s e t \<longrightarrow> handleValloxEvent vx cfg e t t_now s = s)
   \<and> (ForMe vx e \<and> \<not> duplicateFresh s e t1 \<and> Register e' = Register e
        \<and> RawValue e' = RawValue e \<and> Since t2 t1' < 1 * Minute \<longrightarrow>
        handleValloxEvent vx cfg e' t2 t2' (handleValloxEvent vx cfg e t1 t1' s)
          = handleValloxEvent vx cfg e t1 t1' s
        \<and> cache (handleValloxEvent vx cfg e' t2 t2' (handleValloxEvent vx cfg e t1 t1' s))
            = (cache s)(Register e \<mapsto> \<lparr>entry_time = t1', entry_value = e\<rparr>)
        \<and> out (handleValloxEvent vx cfg e' t2 t2' (handleValloxEvent vx cfg e t1 t1' s)) =
            out s
            @ (if cache s (Register e) = None \<and> EnableRaw cfg
                  \<and> topicRaw (Register e) \<notin> announced s
               then [rawDescriptor cfg (Register e)]
               else [])
            @ (case map_of (topicMap vx cfg) (Register e) of
                 Some tp \<Rightarrow> [Publish (topic cfg tp) (Text (fmt_d (Value e)))]
               | None \<Rightarrow> [])
            @ (if EnableRaw cfg
               then [Publish (topic cfg (topicRaw (Register e)))
                       (Text (fmt_d (uint (RawValue e))))]
               else []))"
proof -
  let ?s1 = "handleValloxEvent vx cfg e t1 t1' s"
  have first: "handleValloxEvent vx cfg e t t_now s = s" if "duplicateFresh s e t"
    using that by (auto simp: handleValloxEvent_def duplicateFresh_def split: option.splits)
  have second: "handleValloxEvent vx cfg e' t2 t2' ?s1 = ?s1"
    if a: "ForMe vx e" "\<not> duplicateFresh s e t1" "Register e' = Register e"
      "RawValue e' = RawValue e" "Since t2 t1' < 1 * Minute"
  proof -
    have "cache ?s1 (Register e') = Some \<lparr>entry_time = t1', entry_value = e\<rparr>"
      using a by (simp add: cache_handle_accept)
    then have "duplicateFresh ?s1 e' t2"
      using a by (simp add: duplicateFresh_def)
    then show ?thesis
      by (auto simp: handleValloxEvent_def duplicateFresh_def split: option.splits)
  qed
  show ?thesis
  proof (intro conjI impI)
    assume "duplicateFresh s e t"
    then show "handleValloxEvent vx cfg e t t_now s = s" by (rule first)
  next
    assume "ForMe vx e \<and> \<not> duplicateFresh s e t1 \<and> Register e' = Register e
        \<and> RawValue e' = RawValue e \<and> Since t2 t1' < 1 * Minute"
    then show "handleValloxEvent vx cfg e' t2 t2' ?s1 = ?s1"
      by (simp add: second)
  next
    assume a: "ForMe vx e \<and> \<not> duplicateFresh s e t1 \<and> Register e' = Register e
        \<and> RawValue e' = RawValue e \<and> Since t2 t1' < 1 * Minute"
    then have "handleValloxEvent vx cfg e' t2 t2' ?s1 = ?s1"
      by (simp add: second)
    with a show "cache (handleValloxEvent vx cfg e' t2 t2' ?s1)
            = (cache s)(Register e \<mapsto> \<lparr>entry_time = t1', entry_value = e\<rparr>)"
      by (simp add: cache_handle_accept)
  next
    assume a: "ForMe vx e \<and> \<not> duplicateFresh s e t1 \<and> Register e' = Register e
        \<and> RawValue e' = RawValue e \<and> Since t2 t1' < 1 * Minute"
    then have eq: "handleValloxEvent vx cfg e' t2 t2' ?s1 = ?s1"
      by (simp add: second)
    from a have f: "ForMe vx e" "\<not> duplicateFresh s e t1" by simp_all
    show "out (handleValloxEvent vx cfg e' t2 t2' ?s1) =
            out s
            @ (if cache s (Register e) = None \<and> EnableRaw cfg
                  \<and> topicRaw (Register e) \<notin> announced s
               then [rawDescriptor cfg (Register e)]
               else [])
            @ (case map_of (topicMap vx cfg) (Register e) of
                 Some tp \<Rightarrow> [Publish (topic cfg tp) (Text (fmt_d (Value e)))]
               | None \<Rightarrow> [])
            @ (if EnableRaw cfg
               then [Publish (topic cfg (topicRaw (Register e)))
                       (Text (fmt_d (uint (RawValue e))))]
               else [])"
      unfolding eq by (rule out_handle_accept [OF f])
  qed
qed

text \<open>
  The scenario of the specification, in the default configuration: a fan-speed event with
  raw value 3 at instant 0, when the loop has just begun, and again after 30 seconds. The
  first delivery stores the event and publishes \<open>3\<close> on the fan-speed topic, the second
  changes nothing.
\<close>

theorem duplicate_fresh_noop_witness:
  "duplicateFresh s_fan3 ev_fan3 (30 * Second)
   \<and> handleValloxEvent vx0 cfg0 ev_fan3 (30 * Second) (30 * Second) s_fan3 = s_fan3
   \<and> ForMe vx0 ev_fan3 \<and> \<not> duplicateFresh (s_started cfg0) ev_fan3 0
   \<and> Since (30 * Second) 0 < 1 * Minute
   \<and> handleValloxEvent vx0 cfg0 ev_fan3 (30 * Second) (30 * Second)
        (handleValloxEvent vx0 cfg0 ev_fan3 0 0 (s_started cfg0))
      = handleValloxEvent vx0 cfg0 ev_fan3 0 0 (s_started cfg0)
   \<and> cache (handleValloxEvent vx0 cfg0 ev_fan3 (30 * Second) (30 * Second)
        (handleValloxEvent vx0 cfg0 ev_fan3 0 0 (s_started cfg0)))
      = [0x29 \<mapsto> \<lparr>entry_time = 0, entry_value = ev_fan3\<rparr>]
   \<and> out (handleValloxEvent vx0 cfg0 ev_fan3 (30 * Second) (30 * Second)
        (handleValloxEvent vx0 cfg0 ev_fan3 0 0 (s_started cfg0)))
      = out (s_started cfg0) @ [Publish ''vallox/fan/speed'' (Text ''3'')]"
proof -
  have a: "duplicateFresh s_fan3 ev_fan3 (30 * Second)"
    by (simp add: duplicateFresh_def sample_defs)
  have b: "ForMe vx0 ev_fan3 \<and> \<not> duplicateFresh (s_started cfg0) ev_fan3 0
    \<and> Register ev_fan3 = Register ev_fan3 \<and> RawValue ev_fan3 = RawValue ev_fan3
    \<and> Since (30 * Second) 0 < 1 * Minute"
    by (simp add: duplicateFresh_def sample_defs s_started_def)
  have c: "cache (s_started cfg0) = Map.empty" "\<not> EnableRaw cfg0"
    "map_of (topicMap vx0 cfg0) 0x29 = Some ''fan/speed''"
    "topic cfg0 ''fan/speed'' = ''vallox/fan/speed''" "fmt_d (Value ev_fan3) = ''3''"
    "Register ev_fan3 = 0x29"
    by (simp_all add: sample_defs s_started_def fmt_defs topic_defs)
  have d: "handleValloxEvent vx0 cfg0 ev_fan3 (30 * Second) (30 * Second) s_fan3 = s_fan3"
    using a duplicate_fresh_noop [of s_fan3 ev_fan3 "30 * Second" vx0 cfg0 "30 * Second" 0
        ev_fan3 "30 * Second" 0 "30 * Second"]
    by blast
  note th = duplicate_fresh_noop [of "s_started cfg0" ev_fan3 "30 * Second" vx0 cfg0
        "30 * Second" 0 ev_fan3 "30 * Second" 0 "30 * Second", THEN conjunct2, THEN mp, OF b]
  have k: "cache (handleValloxEvent vx0 cfg0 ev_fan3 (30 * Second) (30 * Second)
        (handleValloxEvent vx0 cfg0 ev_fan3 0 0 (s_started cfg0)))
      = [0x29 \<mapsto> \<lparr>entry_time = 0, entry_value = ev_fan3\<rparr>]"
    using th [THEN conjunct2, THEN conjunct1] by (simp add: c)
  have l: "out (handleValloxEvent vx0 cfg0 ev_fan3 (30 * Second) (30 * Second)
        (handleValloxEvent vx0 cfg0 ev_fan3 0 0 (s_started cfg0)))
      = out (s_started cfg0) @ [Publish ''vallox/fan/speed'' (Text ''3'')]"
    using th [THEN conjunct2, THEN conjunct2] by (simp add: c)
  from a b d th [THEN conjunct1] k l show ?thesis
    by blast
qed

text \<open>
  Claim C2 as it is written fails in its last part, the count of one publish. In the
  default configuration (raw setting off) register 0x06, which the topic map does not
  have, is delivered twice within 30 seconds: the event is stored once and nothing is
  published. With the raw setting on, the fan-speed event delivered twice within 30
  seconds is stored once and gives three messages: the discovery message of the register,
  the value and the raw value.
\<close>

theorem duplicate_fresh_counterexample:
  "ForMe vx0 ev_raw6 \<and> \<not> duplicateFresh (s_started cfg0) ev_raw6 0
   \<and> duplicateFresh (handleValloxEvent vx0 cfg0 ev_raw6 0 0 (s_started cfg0)) ev_raw6 (30 * Second)
   \<and> cache (handleValloxEvent vx0 cfg0 ev_raw6 (30 * Second) (30 * Second)
        (handleValloxEvent vx0 cfg0 ev_raw6 0 0 (s_started cfg0)))
      = [0x06 \<mapsto> \<lparr>entry_time = 0, entry_value = ev_raw6\<rparr>]
   \<and> out (handleValloxEvent vx0 cfg0 ev_raw6 (30 * Second) (30 * Second)
        (handleValloxEvent vx0 cfg0 ev_raw6 0 0 (s_started cfg0)))
      = out (s_started cfg0)
   \<and> ForMe vx0 ev_fan3 \<and> \<not> duplicateFresh (s_started cfg_raw) ev_fan3 0
   \<and> duplicateFresh (handleValloxEvent vx0 cfg_raw ev_fan3 0 0 (s_started cfg_raw)) ev_fan3
        (30 * Second)
   \<and> out (handleValloxEvent vx0 cfg_raw ev_fan3 (30 * Second) (30 * Second)
        (handleValloxEvent vx0 cfg_raw ev_fan3 0 0 (s_started cfg_raw)))
      = out (s_started cfg_raw)
        @ [Publish ''homeassistant/sensor/vallox_raw_29/config''
             (DiscoveryMsg ''raw_29'' ''raw 29'' ''raw/29'' []),
           Publish ''vallox/fan/speed'' (Text ''3''),
           Publish ''vallox/raw/29'' (Text ''3'')]"
  by (simp add: handler_defs duplicateFresh_def sample_defs s_started_def fmt_defs topic_defs)

text \<open>
  Claim C1, as the code has it. An event for this controller whose register is cached with
  the same raw value, but with an entry that is one minute old or older, is accepted like
  a changed value: the cache entry is replaced by the event with the instant of
  \<^verbatim>\<open>time.Now()\<close>, and the event goes to \<^verbatim>\<open>publishValue\<close>, which publishes the value on the
  register's topic when the topic map has the register, and the raw value on the raw
  topic when the raw setting is on (so nothing is published for a register outside the
  topic map when the raw setting is off). These are the only effects: no register is
  queried.
\<close>

theorem duplicate_stale_republished:
  assumes "ForMe vx e" and "cache s (Register e) = Some val"
    and "RawValue (entry_value val) = RawValue e"
    and "Since t (entry_time val) \<ge> 1 * Minute"
  shows "cache (handleValloxEvent vx cfg e t t_now s)
          = (cache s)(Register e \<mapsto> \<lparr>entry_time = t_now, entry_value = e\<rparr>)
        \<and> out (handleValloxEvent vx cfg e t t_now s) =
            out s
            @ (case map_of (topicMap vx cfg) (Register e) of
                 Some tp \<Rightarrow> [Publish (topic cfg tp) (Text (fmt_d (Value e)))]
               | None \<Rightarrow> [])
            @ (if EnableRaw cfg
               then [Publish (topic cfg (topicRaw (Register e)))
                       (Text (fmt_d (uint (RawValue e))))]
               else [])"
  using assms by (auto simp: handler_defs split: option.splits)

theorem duplicate_stale_republished_witness:
  "ForMe vx0 ev_fan3 \<and> cache s_fan3 (Register ev_fan3) = Some \<lparr>entry_time = 0, entry_value = ev_fan3\<rparr>
   \<and> Since (20 * Minute) 0 \<ge> 1 * Minute
   \<and> cache (handleValloxEvent vx0 cfg0 ev_fan3 (20 * Minute) (20 * Minute) s_fan3)
      = (cache s_fan3)(0x29 \<mapsto> \<lparr>entry_time = 20 * Minute, entry_value = ev_fan3\<rparr>)
   \<and> out (handleValloxEvent vx0 cfg0 ev_fan3 (20 * Minute) (20 * Minute) s_fan3)
      = [Publish ''vallox/fan/speed'' (Text ''3'')]"
proof -
  have h: "ForMe vx0 ev_fan3
    \<and> cache s_fan3 (Register ev_fan3) = Some \<lparr>entry_time = 0, entry_value = ev_fan3\<rparr>
    \<and> RawValue (entry_value \<lparr>entry_time = 0, entry_value = ev_fan3\<rparr>) = RawValue ev_fan3
    \<and> Since (20 * Minute) (entry_time \<lparr>entry_time = 0, entry_value = ev_fan3\<rparr>) \<ge> 1 * Minute"
    by (simp add: sample_defs)
  show ?thesis
    using h duplicate_stale_republished [of vx0 ev_fan3 s_fan3
        "\<lparr>entry_time = 0, entry_value = ev_fan3\<rparr>" "20 * Minute" cfg0 "20 * Minute"]
    by (simp add: sample_defs fmt_defs topic_defs)
qed

text \<open>
  Claim C1 as it is written fails: 20 minutes after a fan-speed event with raw value 3 was
  stored, the same event arrives again. The handler publishes it again and replaces the
  cache entry; it sends no query.
\<close>

theorem duplicate_stale_counterexample:
  "cache s_fan3 0x29 = Some \<lparr>entry_time = 0, entry_value = ev_fan3\<rparr>
   \<and> ForMe vx0 ev_fan3
   \<and> Publish ''vallox/fan/speed'' (Text ''3'')
        \<in> set (out (handleValloxEvent vx0 cfg0 ev_fan3 (20 * Minute) (20 * Minute) s_fan3))
   \<and> Query (FanSpeed vx0)
        \<notin> set (out (handleValloxEvent vx0 cfg0 ev_fan3 (20 * Minute) (20 * Minute) s_fan3))
   \<and> cache (handleValloxEvent vx0 cfg0 ev_fan3 (20 * Minute) (20 * Minute) s_fan3) 0x29
        \<noteq> cache s_fan3 0x29"
  by (simp add: handler_defs sample_defs fmt_defs topic_defs)

text \<open>
  The first version of the handler treats a stale duplicate in the same way (its window
  is 15 minutes): it stores and publishes the event and sends no query. Its query of the
  fan speed, \<^verbatim>\<open>verifyOldValues\<close>, is called for a fresh duplicate.
\<close>

lemma handleEvent_duplicate_stale:
  assumes "ForMe vx e" and "cache s (Register e) = Some val"
    and "RawValue (entry_value val) = RawValue e"
    and "\<not> entry_time val > now + (- 15) * Minute"
  shows "handleEvent vx e now t_verify s =
           publishValue_old vx e
             (s\<lparr>cache := (cache s)(Register e \<mapsto> \<lparr>entry_time = now, entry_value = e\<rparr>)\<rparr>)"
  using assms by (simp add: handleEvent_def Let_def)

lemma handleEvent_duplicate_fresh:
  assumes "ForMe vx e" and "cache s (Register e) = Some val"
    and "RawValue (entry_value val) = RawValue e"
    and "entry_time val > now + (- 15) * Minute"
  shows "handleEvent vx e now t_verify s = verifyOldValues vx t_verify s"
  using assms by (simp add: handleEvent_def Let_def)

lemma publishValue_old_no_query: "Query r \<in> set (out (publishValue_old vx e s)) \<longleftrightarrow> Query r \<in> set (out s)"
  by (simp add: publishValue_old_def publish_def emit_def Let_def split: option.splits)

section \<open>Formatted register numbers are distinct\<close>

lemma digit_inj: "a < 36 \<Longrightarrow> b < 36 \<Longrightarrow> digit a = digit b \<Longrightarrow> a = b"
proof -
  have d: "distinct ''0123456789abcdefghijklmnopqrstuvwxyz''" by simp
  have l: "length ''0123456789abcdefghijklmnopqrstuvwxyz'' = 36" by simp
  show "a < 36 \<Longrightarrow> b < 36 \<Longrightarrow> digit a = digit b \<Longrightarrow> a = b"
    unfolding digit_def using nth_eq_iff_index_eq [OF d, of a b] l by simp
qed

lemma fmt_base_nonempty: "fmt_base b n \<noteq> []"
  by (subst fmt_base.simps) simp

lemma fmt_base_inj:
  "2 \<le> b \<Longrightarrow> b \<le> 36 \<Longrightarrow> fmt_base b n = fmt_base b m \<Longrightarrow> n = m"
proof (induction b n arbitrary: m rule: fmt_base.induct)
  case (1 b n)
  note b = \<open>2 \<le> b\<close> \<open>b \<le> 36\<close>
  note eq = \<open>fmt_base b n = fmt_base b m\<close>
  show ?case
  proof (cases "n < b")
    case True
    note n = this
    show ?thesis
    proof (cases "m < b")
      case True
      with n eq b have "digit n = digit m"
        by (simp add: fmt_base.simps [of b n] fmt_base.simps [of b m])
      moreover from n True b have "n < 36" "m < 36" by simp_all
      ultimately show ?thesis by (simp add: digit_inj)
    next
      case False
      with n eq b have "[digit n] = fmt_base b (m div b) @ [digit (m mod b)]"
        by (simp add: fmt_base.simps [of b n] fmt_base.simps [of b m])
      then show ?thesis using fmt_base_nonempty [of b "m div b"] by simp
    qed
  next
    case False
    note n = this
    show ?thesis
    proof (cases "m < b")
      case True
      with n eq b have "fmt_base b (n div b) @ [digit (n mod b)] = [digit m]"
        by (simp add: fmt_base.simps [of b n] fmt_base.simps [of b m])
      then show ?thesis using fmt_base_nonempty [of b "n div b"] by simp
    next
      case False
      with n eq b
      have e: "fmt_base b (n div b) @ [digit (n mod b)] = fmt_base b (m div b) @ [digit (m mod b)]"
        by (simp add: fmt_base.simps [of b n] fmt_base.simps [of b m])
      then have e1: "fmt_base b (n div b) = fmt_base b (m div b)"
        and e2: "digit (n mod b) = digit (m mod b)"
        by simp_all
      from b n have "\<not> (b < 2 \<or> n < b)" by simp
      from "1.IH" [OF this b e1] have q: "n div b = m div b" .
      from b have "n mod b < b" "m mod b < b" by simp_all
      with b have "n mod b < 36" "m mod b < 36" by linarith+
      with e2 have r: "n mod b = m mod b" by (simp add: digit_inj)
      from q r show ?thesis by (metis div_mult_mod_eq)
    qed
  qed
qed

lemma fmt_x_inj: "fmt_x a = fmt_x b \<longleftrightarrow> a = b"
  using fmt_base_inj [of 16 "unat a" "unat b"] by (auto simp: fmt_x_def word_unat_eq_iff)

lemma topicRaw_inj [simp]: "topicRaw a = topicRaw b \<longleftrightarrow> a = b"
  by (simp add: topicRaw_def fmt_x_inj)

lemma rawDescriptor_inj [simp]: "rawDescriptor cfg a = rawDescriptor cfg b \<longleftrightarrow> a = b"
  by (auto simp: rawDescriptor_def descriptor_def fmt_x_inj)

section \<open>The scheduled refresh\<close>

lemma queryRegister_eq:
  "queryRegister v r s = (if absentOrOld s v r then emit (Query r) s else s)"
  by (simp add: queryRegister_def absentOrOld_def split: option.splits)

lemma absentOrOld_out [simp]: "absentOrOld (s\<lparr>out := x\<rparr>) v r = absentOrOld s v r"
  by (simp add: absentOrOld_def)

lemma query_loop:
  "fold (queryRegister v) regs s = s\<lparr>out := out s @ map Query (filter (absentOrOld s v) regs)\<rparr>"
proof (induction regs arbitrary: s)
  case Nil
  show ?case by simp
next
  case (Cons r regs)
  show ?case
    by (simp only: fold_simps o_apply Cons.IH) (simp add: queryRegister_eq emit_def)
qed

lemma queryValues_eq:
  "queryValues vx cfg now s =
     s\<lparr>out := out s @ map Query (filter (absentOrOld s (now - 15 * Minute)) (map fst (topicMap vx cfg)))\<rparr>"
  by (simp add: queryValues_def Let_def query_loop)

text \<open>
  Claim C8, as the code has it. Each run of \<^verbatim>\<open>queryValues\<close> leaves the state as it is but
  for the queries it sends: one query for each register of the topic map that is absent
  from the cache or whose entry is older than 15 minutes, and no other. The topic map has
  five registers, the fan speed and the four temperatures of the protocol variant of the
  configuration; the raw setting has no part in it.
\<close>

theorem scheduled_refresh_queries:
  "queryValues vx cfg now s =
     s\<lparr>out := out s @ map Query (filter (absentOrOld s (now - 15 * Minute)) (map fst (topicMap vx cfg)))\<rparr>
   \<and> map fst (topicMap vx cfg) =
       (if NewProtocol cfg
        then [FanSpeed vx, TempIncomingInsideNew vx, TempIncomingOutsideNew vx,
              TempOutgoingInsideNew vx, TempOutgoingOutsideNew vx]
        else [FanSpeed vx, TempIncomingInside vx, TempIncomingOutside vx,
              TempOutgoingInside vx, TempOutgoingOutside vx])"
proof
  show "queryValues vx cfg now s =
     s\<lparr>out := out s @ map Query (filter (absentOrOld s (now - 15 * Minute)) (map fst (topicMap vx cfg)))\<rparr>"
    by (simp add: queryValues_def Let_def query_loop)
  show "map fst (topicMap vx cfg) =
       (if NewProtocol cfg
        then [FanSpeed vx, TempIncomingInsideNew vx, TempIncomingOutsideNew vx,
              TempOutgoingInsideNew vx, TempOutgoingOutsideNew vx]
        else [FanSpeed vx, TempIncomingInside vx, TempIncomingOutside vx,
              TempOutgoingInside vx, TempOutgoingOutside vx])"
    by (simp add: topicMap_def topicMapNew_def topicMapOld_def)
qed

text \<open>
  Claim C8 as it is written fails. The raw setting is on and the cache holds register
  0x06, stored 20 minutes ago: the refresh queries the five registers of the topic map
  and not register 0x06. And a fan speed that was stored 5 minutes ago, which is older
  than the window of the handler (one minute), is not queried.
\<close>

theorem scheduled_refresh_counterexample:
  "EnableRaw cfg_raw \<and> cache s_two 0x06 = Some \<lparr>entry_time = 0, entry_value = ev_raw6\<rparr>
   \<and> out (queryValues vx0 cfg_raw (20 * Minute) s_two)
       = [Query 0x29, Query 0x5b, Query 0x58, Query 0x5a, Query 0x5c]
   \<and> Query 0x06 \<notin> set (out (queryValues vx0 cfg_raw (20 * Minute) s_two))
   \<and> out (queryValues vx0 cfg_raw (5 * Minute) s_two)
       = [Query 0x5b, Query 0x58, Query 0x5a, Query 0x5c]"
  by (simp add: queryValues_eq absentOrOld_def sample_defs topic_defs)

section \<open>The announcement pass\<close>

lemma publishDiscovery_new:
  "stateTopic \<notin> announced s \<Longrightarrow>
   publishDiscovery cfg etype uid name stateTopic cmdTopic s =
     s\<lparr>announced := insert stateTopic (announced s),
       out := out s @ [descriptor cfg etype uid name stateTopic cmdTopic]\<rparr>"
  by (simp add: publishDiscovery_def publish_def emit_def descriptor_def)

lemma publishDiscovery_known:
  "stateTopic \<in> announced s \<Longrightarrow> publishDiscovery cfg etype uid name stateTopic cmdTopic s = s"
  by (simp add: publishDiscovery_def)

lemma announceRawData_new:
  "EnableRaw cfg \<Longrightarrow> topicRaw r \<notin> announced s \<Longrightarrow>
   announceRawData cfg r s =
     s\<lparr>announced := insert (topicRaw r) (announced s), out := out s @ [rawDescriptor cfg r]\<rparr>"
  by (simp add: announceRawData_def publishSensor_def publishDiscovery_new rawDescriptor_def)

lemma announce_loop_off: "\<not> EnableRaw cfg \<Longrightarrow> fold (announceRawData cfg) regs s = s"
  by (induction regs) (simp_all add: announceRawData_def)

lemma announce_loop_on:
  "EnableRaw cfg \<Longrightarrow> distinct regs \<Longrightarrow> \<forall>r \<in> set regs. topicRaw r \<notin> announced s \<Longrightarrow>
   fold (announceRawData cfg) regs s =
     s\<lparr>announced := announced s \<union> topicRaw ` set regs,
       out := out s @ map (rawDescriptor cfg) regs\<rparr>"
proof (induction regs arbitrary: s)
  case Nil
  show ?case by simp
next
  case (Cons r regs)
  let ?s1 = "s\<lparr>announced := insert (topicRaw r) (announced s), out := out s @ [rawDescriptor cfg r]\<rparr>"
  from Cons.prems have a: "announceRawData cfg r s = ?s1"
    by (simp add: announceRawData_new)
  from Cons.prems have "\<forall>x \<in> set regs. topicRaw x \<notin> announced ?s1"
    by auto
  with Cons.prems have "fold (announceRawData cfg) regs ?s1 =
     ?s1\<lparr>announced := announced ?s1 \<union> topicRaw ` set regs,
       out := out ?s1 @ map (rawDescriptor cfg) regs\<rparr>"
    by (intro Cons.IH) simp_all
  with a show ?case by simp
qed

lemma topicRaw_not_wellknown [simp]:
  "topicRaw r \<noteq> topicFanSpeed" "topicRaw r \<noteq> topicTempIncomingOutside"
  "topicRaw r \<noteq> topicTempIncomingIside" "topicRaw r \<noteq> topicTempOutgoingInside"
  "topicRaw r \<noteq> topicTempOutgoingOutside"
  by (simp_all add: topicRaw_def topic_defs)

lemma pass_wellknown:
  "announceMeToMqttDiscovery cfg [] s =
     s\<lparr>announced := {topicFanSpeed, topicTempIncomingOutside, topicTempIncomingIside,
                      topicTempOutgoingInside, topicTempOutgoingOutside},
       out := out s @ sensorDescriptors cfg\<rparr>"
  by (simp add: announceMeToMqttDiscovery_def publishSensor_def publishSelect_def
      publishDiscovery_def publish_def emit_def descriptor_def sensorDescriptors_def Let_def
      topicFanSpeed_def topicFanSpeedSet_def topicTempIncomingIside_def
      topicTempIncomingOutside_def topicTempOutgoingInside_def topicTempOutgoingOutside_def
      insert_commute)

text \<open>The state in which the loop of \<^verbatim>\<open>main\<close> begins is the sample state \<open>s_started\<close>.\<close>

lemma s_started_pass: "announceMeToMqttDiscovery cfg [] s_init = s_started cfg"
  by (simp add: pass_wellknown s_started_def s_init_def)

lemma pass_split:
  "announceMeToMqttDiscovery cfg regs s =
     fold (announceRawData cfg) regs (announceMeToMqttDiscovery cfg [] s)"
  by (simp add: announceMeToMqttDiscovery_def Let_def)

lemma pass_exact:
  assumes "distinct regs"
  shows "announceMeToMqttDiscovery cfg regs s =
     s\<lparr>announced := {topicFanSpeed, topicTempIncomingOutside, topicTempIncomingIside,
                      topicTempOutgoingInside, topicTempOutgoingOutside}
                     \<union> (if EnableRaw cfg then topicRaw ` set regs else {}),
       out := out s @ sensorDescriptors cfg @ (if EnableRaw cfg then map (rawDescriptor cfg) regs else [])\<rparr>"
proof (cases "EnableRaw cfg")
  case True
  with assms show ?thesis
    by (subst pass_split) (simp add: pass_wellknown announce_loop_on)
next
  case False
  then show ?thesis
    by (subst pass_split) (simp add: pass_wellknown announce_loop_off)
qed


lemma count_list_distinct: "distinct xs \<Longrightarrow> x \<in> set xs \<Longrightarrow> count_list xs x = 1"
  by (induction xs) auto

lemma count_raw_descriptors:
  "distinct regs \<Longrightarrow> r \<in> set regs \<Longrightarrow> count_list (map (rawDescriptor cfg) regs) (rawDescriptor cfg r) = 1"
proof -
  assume a: "distinct regs" "r \<in> set regs"
  have "inj (rawDescriptor cfg)" by (rule injI) simp
  then have "count_list (map (rawDescriptor cfg) regs) (rawDescriptor cfg r) = count_list regs r"
    by (rule count_list_map_conv)
  with a show ?thesis by (simp add: count_list_distinct)
qed

lemma sensor_not_raw: "d \<in> set (sensorDescriptors cfg) \<Longrightarrow> d \<noteq> rawDescriptor cfg r"
  by (auto simp: sensorDescriptors_def rawDescriptor_def descriptor_def)

lemma count_sensor_in_raw:
  "d \<in> set (sensorDescriptors cfg) \<Longrightarrow> count_list (map (rawDescriptor cfg) regs) d = 0"
  by (rule count_notin) (auto dest: sensor_not_raw)

lemma count_raw_in_sensor: "count_list (sensorDescriptors cfg) (rawDescriptor cfg r) = 0"
  by (rule count_notin) (auto dest: sensor_not_raw)

lemma distinct_sensorDescriptors: "distinct (sensorDescriptors cfg)"
  by (simp add: sensorDescriptors_def descriptor_def)

text \<open>
  Claim C7, as the code has it. The announcement pass, which the dispatcher starts when
  it receives the status \<open>online\<close>, does not depend on the announced set it finds: it
  clears the set first. It publishes the descriptor of each of the five sensors (fan
  speed and the four temperatures) exactly once and, when the raw setting is on, the
  descriptor of every register in the cache exactly once. \<open>regs\<close> is the order in which
  \<^verbatim>\<open>range\<close> visits the keys of the cache.
\<close>

theorem announcement_pass:
  assumes "distinct regs" and "set regs = dom (cache s)"
  shows "announceMeToMqttDiscovery cfg regs (s\<lparr>announced := A\<rparr>)
           = announceMeToMqttDiscovery cfg regs s
     \<and> (\<forall>d \<in> set (sensorDescriptors cfg).
           count_list (out (announceMeToMqttDiscovery cfg regs s)) d = count_list (out s) d + 1)
     \<and> (EnableRaw cfg \<longrightarrow>
          (\<forall>r \<in> dom (cache s).
             count_list (out (announceMeToMqttDiscovery cfg regs s)) (rawDescriptor cfg r)
               = count_list (out s) (rawDescriptor cfg r) + 1))
     \<and> (homeassistantStatus s = ''online'' # rest \<longrightarrow>
          main_step vx cfg (RecvHomeassistantStatus regs) s
            = Inr (announceMeToMqttDiscovery cfg regs (s\<lparr>homeassistantStatus := rest\<rparr>)))"
proof (intro conjI)
  show "announceMeToMqttDiscovery cfg regs (s\<lparr>announced := A\<rparr>)
           = announceMeToMqttDiscovery cfg regs s"
    by (simp add: announceMeToMqttDiscovery_def)
  show "\<forall>d \<in> set (sensorDescriptors cfg).
           count_list (out (announceMeToMqttDiscovery cfg regs s)) d = count_list (out s) d + 1"
    using assms(1)
    by (simp add: pass_exact count_sensor_in_raw count_list_distinct distinct_sensorDescriptors)
  show "EnableRaw cfg \<longrightarrow>
          (\<forall>r \<in> dom (cache s).
             count_list (out (announceMeToMqttDiscovery cfg regs s)) (rawDescriptor cfg r)
               = count_list (out s) (rawDescriptor cfg r) + 1)"
    using assms
    by (simp add: pass_exact count_raw_in_sensor count_raw_descriptors)
  show "homeassistantStatus s = ''online'' # rest \<longrightarrow>
          main_step vx cfg (RecvHomeassistantStatus regs) s
            = Inr (announceMeToMqttDiscovery cfg regs (s\<lparr>homeassistantStatus := rest\<rparr>))"
    by simp
qed

theorem announcement_pass_witness:
  "distinct [0x29 :: byte] \<and> set [0x29] = dom (cache s_online) \<and> EnableRaw cfg_raw
   \<and> main_step vx0 cfg_raw (RecvHomeassistantStatus [0x29]) s_online
       = Inr (announceMeToMqttDiscovery cfg_raw [0x29] (s_online\<lparr>homeassistantStatus := []\<rparr>))
   \<and> count_list (out (announceMeToMqttDiscovery cfg_raw [0x29] s_online))
        (rawDescriptor cfg_raw 0x29) = 1
   \<and> count_list (out (announceMeToMqttDiscovery cfg_raw [0x29] s_online))
        (descriptor cfg_raw ''sensor'' ''fan_speed'' ''speed'' topicFanSpeed []) = 1"
proof -
  have h: "distinct [0x29 :: byte]" "set [0x29] = dom (cache s_online)"
    by (simp_all add: sample_defs)
  have e: "EnableRaw cfg_raw" "homeassistantStatus s_online = ''online'' # []"
    "out s_online = []" "0x29 \<in> dom (cache s_online)"
    "descriptor cfg_raw ''sensor'' ''fan_speed'' ''speed'' topicFanSpeed []
       \<in> set (sensorDescriptors cfg_raw)"
    by (simp_all add: sample_defs sensorDescriptors_def)
  from announcement_pass [OF h, of cfg_raw "{}" "[]" vx0] h e show ?thesis
    by simp
qed

text \<open>
  Claim C7 as it is written fails. With the raw setting off and the fan speed in the
  cache, the pass publishes the five sensor descriptors and nothing else: no descriptor
  for the cached register, and none for the fan-select entity.
\<close>

theorem announcement_pass_counterexample:
  "cache s_fan3 0x29 = Some \<lparr>entry_time = 0, entry_value = ev_fan3\<rparr> \<and> \<not> EnableRaw cfg0
   \<and> out (announceMeToMqttDiscovery cfg0 [0x29] s_fan3) = sensorDescriptors cfg0
   \<and> rawDescriptor cfg0 0x29 \<notin> set (out (announceMeToMqttDiscovery cfg0 [0x29] s_fan3))
   \<and> descriptor cfg0 ''select'' ''fan_select'' ''speed select'' topicFanSpeed topicFanSpeedSet
        \<notin> set (out (announceMeToMqttDiscovery cfg0 [0x29] s_fan3))"
proof -
  have "out (announceMeToMqttDiscovery cfg0 [0x29] s_fan3) = sensorDescriptors cfg0"
    by (simp add: pass_exact sample_defs)
  then show ?thesis
    by (simp add: sample_defs sensorDescriptors_def rawDescriptor_def descriptor_def)
qed

text \<open>
  The pass never publishes a descriptor of a select entity: \<^verbatim>\<open>publishSelect\<close> is called
  with the state topic of the fan-speed sensor, which \<^verbatim>\<open>publishDiscovery\<close> has just put
  into the announced set, and returns early.
\<close>

lemma select_never_published:
  assumes "distinct regs"
  shows "count_list (out (announceMeToMqttDiscovery cfg regs s))
           (descriptor cfg ''select'' uid name stateTopic cmdTopic)
         = count_list (out s) (descriptor cfg ''select'' uid name stateTopic cmdTopic)"
proof -
  have a: "descriptor cfg ''select'' uid name stateTopic cmdTopic \<notin> set (sensorDescriptors cfg)"
    by (simp add: sensorDescriptors_def descriptor_def)
  have b: "descriptor cfg ''select'' uid name stateTopic cmdTopic
            \<notin> set (map (rawDescriptor cfg) regs)"
    by (auto simp: rawDescriptor_def descriptor_def)
  from a b assms show ?thesis
    by (simp add: pass_exact)
qed

section \<open>The first event of a register\<close>

text \<open>
  Only registers of the cache have their raw topic in the announced set: the handler and
  the announcement pass keep it so. Hence, with the raw setting on, the first event of a
  register finds its raw topic unannounced, and the descriptor of the register is
  published exactly once by that event (lemma \<open>first_event_descriptor\<close>).
\<close>

lemma announced_handle_accept:
  assumes "ForMe vx e" and "\<not> duplicateFresh s e t"
  shows "announced (handleValloxEvent vx cfg e t t' s)
         = (if cache s (Register e) = None \<and> EnableRaw cfg
            then insert (topicRaw (Register e)) (announced s) else announced s)"
  using assms by (auto simp: handler_defs duplicateFresh_def split: option.splits)

lemma handle_skip:
  assumes "\<not> (ForMe vx e \<and> \<not> duplicateFresh s e t)"
  shows "handleValloxEvent vx cfg e t t' s = s"
  using assms by (auto simp: handleValloxEvent_def duplicateFresh_def split: option.splits)

lemma handleValloxEvent_announced_cached:
  assumes "\<forall>r. topicRaw r \<in> announced s \<longrightarrow> cache s r \<noteq> None"
  shows "\<forall>r. topicRaw r \<in> announced (handleValloxEvent vx cfg e t t' s)
           \<longrightarrow> cache (handleValloxEvent vx cfg e t t' s) r \<noteq> None"
proof (cases "ForMe vx e \<and> \<not> duplicateFresh s e t")
  case False
  with assms show ?thesis by (simp add: handle_skip)
next
  case True
  then have c: "cache (handleValloxEvent vx cfg e t t' s)
         = (cache s)(Register e \<mapsto> \<lparr>entry_time = t', entry_value = e\<rparr>)"
    and a: "announced (handleValloxEvent vx cfg e t t' s)
         = (if cache s (Register e) = None \<and> EnableRaw cfg
            then insert (topicRaw (Register e)) (announced s) else announced s)"
    by (simp_all add: cache_handle_accept announced_handle_accept)
  show ?thesis
  proof (intro allI impI)
    fix r
    assume "topicRaw r \<in> announced (handleValloxEvent vx cfg e t t' s)"
    with a have "r = Register e \<or> topicRaw r \<in> announced s"
      by (auto split: if_splits)
    with assms show "cache (handleValloxEvent vx cfg e t t' s) r \<noteq> None"
      by (auto simp: c)
  qed
qed


lemma pass_announced_cached:
  assumes "distinct regs" and "set regs = dom (cache s)"
  shows "\<forall>r. topicRaw r \<in> announced (announceMeToMqttDiscovery cfg regs s)
           \<longrightarrow> cache (announceMeToMqttDiscovery cfg regs s) r \<noteq> None"
proof (intro allI impI)
  fix r
  assume "topicRaw r \<in> announced (announceMeToMqttDiscovery cfg regs s)"
  with assms(1) have "r \<in> set regs"
    by (auto simp: pass_exact split: if_splits)
  with assms show "cache (announceMeToMqttDiscovery cfg regs s) r \<noteq> None"
    by (auto simp: pass_exact)
qed

lemma out_handle_first:
  assumes "ForMe vx e" and "cache s (Register e) = None"
  shows "out (handleValloxEvent vx cfg e t t' s) =
            out s
            @ (if EnableRaw cfg \<and> topicRaw (Register e) \<notin> announced s
               then [rawDescriptor cfg (Register e)] else [])
            @ (case map_of (topicMap vx cfg) (Register e) of
                 Some tp \<Rightarrow> [Publish (topic cfg tp) (Text (fmt_d (Value e)))]
               | None \<Rightarrow> [])
            @ (if EnableRaw cfg
               then [Publish (topic cfg (topicRaw (Register e)))
                       (Text (fmt_d (uint (RawValue e))))]
               else [])"
  using assms by (auto simp: handler_defs rawDescriptor_def descriptor_def split: option.splits)

lemma first_event_descriptor:
  assumes "\<forall>r. topicRaw r \<in> announced s \<longrightarrow> cache s r \<noteq> None"
    and "ForMe vx e" and "cache s (Register e) = None" and "EnableRaw cfg"
  shows "count_list (out (handleValloxEvent vx cfg e t t' s)) (rawDescriptor cfg (Register e))
         = count_list (out s) (rawDescriptor cfg (Register e)) + 1"
proof -
  from assms(1,3) have n: "topicRaw (Register e) \<notin> announced s" by auto
  have t: "Publish tp (Text x) \<noteq> rawDescriptor cfg r" for r tp x
    by (simp add: rawDescriptor_def descriptor_def)
  from n assms(4) show ?thesis
    by (simp add: out_handle_first [OF assms(2,3)] t split: option.splits)
qed

text \<open>
  Claim C3, as the code has it. The first event for a register that is addressed to this
  controller (the cache has no entry for the register) is accepted: the handler calls
  \<^verbatim>\<open>announceRawData\<close> for the register once, stores the event with the instant of
  \<^verbatim>\<open>time.Now()\<close>, and hands the event to \<^verbatim>\<open>publishValue\<close> once. After handling, the
  register is in the cache with the event and that instant. What is sent depends on the
  configuration and the topic map: the discovery message of the register is published,
  exactly once, when the raw setting is on and the register's raw topic is not yet in
  the announced set, and not at all otherwise; the value is published on the register's
  topic when the topic map has the register; the raw value is published on the raw
  topic when the raw setting is on. So in the default configuration (raw setting off) no
  discovery message is sent, and for a register outside the topic map nothing is sent.
\<close>

theorem first_event_accepted:
  assumes "ForMe vx e" and "cache s (Register e) = None"
  shows "handleValloxEvent vx cfg e t t_now s =
          publishValue vx cfg e
            ((announceRawData cfg (Register e) s)
               \<lparr>cache := (cache s)(Register e \<mapsto> \<lparr>entry_time = t_now, entry_value = e\<rparr>),
                currentSpeed :=
                  (if Register e = FanSpeed vx then word_of_int (Value e) else currentSpeed s),
                currentSpeedUpdated :=
                  (if Register e = FanSpeed vx then t_now else currentSpeedUpdated s)\<rparr>)
        \<and> cache (handleValloxEvent vx cfg e t t_now s) (Register e)
            = Some \<lparr>entry_time = t_now, entry_value = e\<rparr>
        \<and> out (handleValloxEvent vx cfg e t t_now s) =
            out s
            @ (if EnableRaw cfg \<and> topicRaw (Register e) \<notin> announced s
               then [rawDescriptor cfg (Register e)]
               else [])
            @ (case map_of (topicMap vx cfg) (Register e) of
                 Some tp \<Rightarrow> [Publish (topic cfg tp) (Text (fmt_d (Value e)))]
               | None \<Rightarrow> [])
            @ (if EnableRaw cfg
               then [Publish (topic cfg (topicRaw (Register e)))
                       (Text (fmt_d (uint (RawValue e))))]
               else [])
        \<and> count_list (out (handleValloxEvent vx cfg e t t_now s)) (rawDescriptor cfg (Register e))
            = count_list (out s) (rawDescriptor cfg (Register e))
              + (if EnableRaw cfg \<and> topicRaw (Register e) \<notin> announced s then 1 else 0)"
proof (intro conjI)
  show "handleValloxEvent vx cfg e t t_now s =
          publishValue vx cfg e
            ((announceRawData cfg (Register e) s)
               \<lparr>cache := (cache s)(Register e \<mapsto> \<lparr>entry_time = t_now, entry_value = e\<rparr>),
                currentSpeed :=
                  (if Register e = FanSpeed vx then word_of_int (Value e) else currentSpeed s),
                currentSpeedUpdated :=
                  (if Register e = FanSpeed vx then t_now else currentSpeedUpdated s)\<rparr>)"
    using assms by (auto simp: handler_defs split: option.splits)
  from assms have "\<not> duplicateFresh s e t"
    by (simp add: duplicateFresh_def)
  with assms show "cache (handleValloxEvent vx cfg e t t_now s) (Register e)
            = Some \<lparr>entry_time = t_now, entry_value = e\<rparr>"
    by (simp add: cache_handle_accept)
  show "out (handleValloxEvent vx cfg e t t_now s) =
            out s
            @ (if EnableRaw cfg \<and> topicRaw (Register e) \<notin> announced s
               then [rawDescriptor cfg (Register e)]
               else [])
            @ (case map_of (topicMap vx cfg) (Register e) of
                 Some tp \<Rightarrow> [Publish (topic cfg tp) (Text (fmt_d (Value e)))]
               | None \<Rightarrow> [])
            @ (if EnableRaw cfg
               then [Publish (topic cfg (topicRaw (Register e)))
                       (Text (fmt_d (uint (RawValue e))))]
               else [])"
    by (rule out_handle_first [OF assms])
  have t: "Publish tp (Text x) \<noteq> rawDescriptor cfg r" for r tp x
    by (simp add: rawDescriptor_def descriptor_def)
  show "count_list (out (handleValloxEvent vx cfg e t t_now s)) (rawDescriptor cfg (Register e))
            = count_list (out s) (rawDescriptor cfg (Register e))
              + (if EnableRaw cfg \<and> topicRaw (Register e) \<notin> announced s then 1 else 0)"
    by (simp add: out_handle_first [OF assms] t split: option.splits)
qed

text \<open>
  With the raw setting on, the first fan-speed event after the loop has begun is announced
  once and published twice, on its topic and on its raw topic.
\<close>

theorem first_event_accepted_witness:
  "ForMe vx0 ev_fan3 \<and> cache (s_started cfg_raw) (Register ev_fan3) = None
   \<and> cache (handleValloxEvent vx0 cfg_raw ev_fan3 5 7 (s_started cfg_raw)) 0x29
      = Some \<lparr>entry_time = 7, entry_value = ev_fan3\<rparr>
   \<and> out (handleValloxEvent vx0 cfg_raw ev_fan3 5 7 (s_started cfg_raw))
      = sensorDescriptors cfg_raw
        @ [Publish ''homeassistant/sensor/vallox_raw_29/config''
             (DiscoveryMsg ''raw_29'' ''raw 29'' ''raw/29'' []),
           Publish ''vallox/fan/speed'' (Text ''3''),
           Publish ''vallox/raw/29'' (Text ''3'')]
   \<and> count_list (out (handleValloxEvent vx0 cfg_raw ev_fan3 5 7 (s_started cfg_raw)))
        (rawDescriptor cfg_raw 0x29) = 1"
proof -
  have h1: "ForMe vx0 ev_fan3" and h2: "cache (s_started cfg_raw) (Register ev_fan3) = None"
    by (simp_all add: sample_defs s_started_def)
  note th = first_event_accepted [OF h1 h2, of cfg_raw 5 7, THEN conjunct2]
  have c: "Register ev_fan3 = 0x29" "EnableRaw cfg_raw"
    "topicRaw 0x29 \<notin> announced (s_started cfg_raw)"
    "out (s_started cfg_raw) = sensorDescriptors cfg_raw"
    "map_of (topicMap vx0 cfg_raw) 0x29 = Some ''fan/speed''"
    "topic cfg_raw ''fan/speed'' = ''vallox/fan/speed''"
    "topic cfg_raw (topicRaw 0x29) = ''vallox/raw/29''"
    "fmt_d (Value ev_fan3) = ''3''" "fmt_d (uint (RawValue ev_fan3)) = ''3''"
    "rawDescriptor cfg_raw 0x29 = Publish ''homeassistant/sensor/vallox_raw_29/config''
             (DiscoveryMsg ''raw_29'' ''raw 29'' ''raw/29'' [])"
    by (simp_all add: sample_defs s_started_def fmt_defs topic_defs rawDescriptor_def
        descriptor_def)
  have k: "cache (handleValloxEvent vx0 cfg_raw ev_fan3 5 7 (s_started cfg_raw)) 0x29
      = Some \<lparr>entry_time = 7, entry_value = ev_fan3\<rparr>"
    using th [THEN conjunct1] by (simp add: c(1))
  have l: "out (handleValloxEvent vx0 cfg_raw ev_fan3 5 7 (s_started cfg_raw))
      = sensorDescriptors cfg_raw
        @ [Publish ''homeassistant/sensor/vallox_raw_29/config''
             (DiscoveryMsg ''raw_29'' ''raw 29'' ''raw/29'' []),
           Publish ''vallox/fan/speed'' (Text ''3''),
           Publish ''vallox/raw/29'' (Text ''3'')]"
    using th [THEN conjunct2, THEN conjunct1] by (simp add: c)
  have m: "count_list (out (handleValloxEvent vx0 cfg_raw ev_fan3 5 7 (s_started cfg_raw)))
        (rawDescriptor cfg_raw 0x29) = 1"
    using th [THEN conjunct2, THEN conjunct2] count_raw_in_sensor [where cfg = cfg_raw and r = "0x29"]
    by (simp only: c(1-4)) simp
  from h1 h2 k l m show ?thesis
    by blast
qed

text \<open>
  Claim C3 as it is written fails in the default configuration (raw setting off). The
  first event of register 0x06, which the topic map does not have, is stored, but nothing
  is published: no discovery message, no value. The first fan-speed event is stored and
  published on the fan-speed topic, and no discovery message of the register is sent.
\<close>

theorem first_event_counterexample:
  "ForMe vx0 ev_raw6 \<and> cache (s_started cfg0) (Register ev_raw6) = None
   \<and> cache (handleValloxEvent vx0 cfg0 ev_raw6 5 7 (s_started cfg0)) 0x06
      = Some \<lparr>entry_time = 7, entry_value = ev_raw6\<rparr>
   \<and> out (handleValloxEvent vx0 cfg0 ev_raw6 5 7 (s_started cfg0)) = out (s_started cfg0)
   \<and> ForMe vx0 ev_fan3 \<and> cache (s_started cfg0) (Register ev_fan3) = None
   \<and> out (handleValloxEvent vx0 cfg0 ev_fan3 5 7 (s_started cfg0))
      = out (s_started cfg0) @ [Publish ''vallox/fan/speed'' (Text ''3'')]
   \<and> rawDescriptor cfg0 0x29 \<notin> set (out (handleValloxEvent vx0 cfg0 ev_fan3 5 7 (s_started cfg0)))"
  by (simp add: handler_defs sample_defs s_started_def sensorDescriptors_def fmt_defs topic_defs
      rawDescriptor_def descriptor_def)

section \<open>The speed debouncer\<close>



text \<open>
  Claim C6. An attempt to write fires when the request is at least 5 seconds old, and the
  confirmed speed differs from the requested one or its confirmation is more than 10
  seconds old. Then \<^verbatim>\<open>sendSpeed\<close> sets the confirmed speed to the requested speed with
  the instant of \<^verbatim>\<open>time.Now()\<close> and sends, in this order, the bus write of the requested
  speed, a sleep of 20 milliseconds and a query of the fan-speed register; nothing else
  changes. (In the source the two assignments to the confirmed speed stand before the
  call of \<^verbatim>\<open>SetSpeed\<close>; no effect lies between them.)
\<close>

theorem sendSpeed_write_sequence:
  assumes "\<not> Since t1 (updateSpeedRequested s) < 5 * Second"
    and "currentSpeed s \<noteq> updateSpeed s \<or> Since t2 (currentSpeedUpdated s) > 10 * Second"
  shows "sendSpeed vx t1 t2 t3 s =
     s\<lparr>currentSpeed := updateSpeed s, currentSpeedUpdated := t3,
       out := out s @ [SetSpeed (updateSpeed s), Sleep (20 * Millisecond), Query (FanSpeed vx)]\<rparr>"
  using assms by (simp add: sendSpeed_def emit_def Let_def)

theorem sendSpeed_write_sequence_witness:
  "\<not> Since (9 * Second) (updateSpeedRequested (s_fan3\<lparr>updateSpeed := 5, updateSpeedRequested := 4 * Second\<rparr>)) < 5 * Second
   \<and> currentSpeed (s_fan3\<lparr>updateSpeed := 5, updateSpeedRequested := 4 * Second\<rparr>)
       \<noteq> updateSpeed (s_fan3\<lparr>updateSpeed := 5, updateSpeedRequested := 4 * Second\<rparr>)
   \<and> sendSpeed vx0 (9 * Second) (9 * Second) (9 * Second)
        (s_fan3\<lparr>updateSpeed := 5, updateSpeedRequested := 4 * Second\<rparr>)
      = s_fan3\<lparr>updateSpeed := 5, updateSpeedRequested := 4 * Second, currentSpeed := 5,
               currentSpeedUpdated := 9 * Second,
               out := [SetSpeed 5, Sleep (20 * Millisecond), Query 0x29]\<rparr>"
proof -
  let ?s = "s_fan3\<lparr>updateSpeed := 5, updateSpeedRequested := 4 * Second\<rparr>"
  have h1: "\<not> Since (9 * Second) (updateSpeedRequested ?s) < 5 * Second"
    and h2: "currentSpeed ?s \<noteq> updateSpeed ?s \<or> Since (9 * Second) (currentSpeedUpdated ?s) > 10 * Second"
    by (simp_all add: sample_defs)
  show ?thesis
    using h1 h2 sendSpeed_write_sequence [OF h1 h2, of vx0 "9 * Second"]
    by (simp add: sample_defs)
qed

lemma main_loop_append:
  "main_loop vx cfg (xs @ ys) s =
     (case main_loop vx cfg xs s of Inl err \<Rightarrow> Inl err | Inr s1 \<Rightarrow> main_loop vx cfg ys s1)"
  by (induction xs arbitrary: s) (auto split: sum.splits)

lemma busWrites_queries [simp]: "busWrites (s\<lparr>out := out s @ map Query rs\<rparr>) = busWrites s"
  by (induction rs) (simp_all add: busWrites_def)

lemma busWrites_frame [simp]:
  "busWrites (s\<lparr>retries := x\<rparr>) = busWrites s"
  "busWrites (s\<lparr>speedUpdateSend := y\<rparr>) = busWrites s"
  "busWrites (s\<lparr>speedUpdateRequest := z\<rparr>) = busWrites s"
  "busWrites (s\<lparr>updateSpeed := v\<rparr>) = busWrites s"
  "busWrites (s\<lparr>updateSpeedRequested := t\<rparr>) = busWrites s"
  "busWrites (s\<lparr>currentSpeed := v\<rparr>) = busWrites s"
  "busWrites (s\<lparr>currentSpeedUpdated := t\<rparr>) = busWrites s"
  by (simp_all add: busWrites_def)

lemma pending_frame [simp]:
  "pending (s\<lparr>out := x\<rparr>) = pending s"
  "pending (s\<lparr>speedUpdateRequest := z\<rparr>) = pending s"
  "pending (s\<lparr>updateSpeed := v\<rparr>) = pending s"
  "pending (s\<lparr>updateSpeedRequested := t\<rparr>) = pending s"
  "pending (s\<lparr>currentSpeed := v\<rparr>) = pending s"
  "pending (s\<lparr>currentSpeedUpdated := t\<rparr>) = pending s"
  by (simp_all add: pending_def)

text \<open>A quiet step while the request is younger than the cool-down.\<close>

lemma quiet_step_cool:
  assumes "isQuietStep x" and "attemptBefore T x"
    and "0 < pending s \<longrightarrow> T \<le> updateSpeedRequested s + 5 * Second"
    and "main_step vx cfg x s = Inr s'"
  shows "busWrites s' = busWrites s \<and> currentSpeed s' = currentSpeed s
    \<and> currentSpeedUpdated s' = currentSpeedUpdated s \<and> updateSpeed s' = updateSpeed s
    \<and> updateSpeedRequested s' = updateSpeedRequested s \<and> pending s' = pending s
    \<and> speedUpdateRequest s' = speedUpdateRequest s"
proof (cases x)
  case (RecvSpeedUpdateSend t1 t2 t3)
  with assms(4) obtain tok rest where c: "speedUpdateSend s = tok # rest"
    by (cases "speedUpdateSend s") auto
  then have "0 < pending s" by (simp add: pending_def)
  with assms(2,3) RecvSpeedUpdateSend have "Since t1 (updateSpeedRequested s) < 5 * Second"
    by (simp add: Since_def)
  with assms(4) RecvSpeedUpdateSend c show ?thesis
    by (auto simp: sendSpeed_def pending_def)
next
  case (RetryWake i t)
  with assms(4) show ?thesis
    by (auto simp: retryWake_def pending_def min_def split: if_splits)
next
  case (TimerTick now)
  with assms(4) show ?thesis by (auto simp: queryValues_eq)
next
  case (TimerAfter now)
  with assms(4) show ?thesis by (auto simp: queryValues_eq)
qed (use assms(1) in simp_all)

lemma quiet_run_cool:
  assumes "\<forall>x \<in> set xs. isQuietStep x \<and> attemptBefore T x"
    and "0 < pending s \<longrightarrow> T \<le> updateSpeedRequested s + 5 * Second"
    and "main_loop vx cfg xs s = Inr s'"
  shows "busWrites s' = busWrites s \<and> currentSpeed s' = currentSpeed s
    \<and> currentSpeedUpdated s' = currentSpeedUpdated s \<and> updateSpeed s' = updateSpeed s
    \<and> updateSpeedRequested s' = updateSpeedRequested s \<and> pending s' = pending s
    \<and> speedUpdateRequest s' = speedUpdateRequest s"
  using assms
proof (induction xs arbitrary: s)
  case Nil
  then show ?case by simp
next
  case (Cons x xs)
  from Cons.prems(3) obtain s1 where s1: "main_step vx cfg x s = Inr s1"
    and r: "main_loop vx cfg xs s1 = Inr s'"
    by (auto split: sum.splits)
  from Cons.prems(1) have x: "isQuietStep x" "attemptBefore T x" by simp_all
  note a = quiet_step_cool [OF x Cons.prems(2) s1]
  from a Cons.prems(2) have "0 < pending s1 \<longrightarrow> T \<le> updateSpeedRequested s1 + 5 * Second"
    by simp
  from Cons.IH [OF _ this r] Cons.prems(1) a show ?case by simp
qed


text \<open>A quiet step after the write.\<close>

lemma quiet_step_written:
  assumes "isQuietStep x" and "attemptWithin (b + 15 * Second) x"
    and "updateSpeed s = v \<and> updateSpeedRequested s = b \<and> currentSpeed s = v
         \<and> b + 5 * Second \<le> currentSpeedUpdated s \<and> busWrites s = W"
    and "main_step vx cfg x s = Inr s'"
  shows "updateSpeed s' = v \<and> updateSpeedRequested s' = b \<and> currentSpeed s' = v
         \<and> b + 5 * Second \<le> currentSpeedUpdated s' \<and> busWrites s' = W"
proof (cases x)
  case (RecvSpeedUpdateSend t1 t2 t3)
  with assms(4) obtain tok rest where c: "speedUpdateSend s = tok # rest"
    by (cases "speedUpdateSend s") auto
  from assms(2,3) RecvSpeedUpdateSend
  have "\<not> Since t2 (currentSpeedUpdated s) > 10 * Second"
    by (simp add: Since_def)
  with assms(3,4) RecvSpeedUpdateSend c show ?thesis
    by (auto simp: sendSpeed_def)
next
  case (RetryWake i t)
  with assms(3,4) show ?thesis
    by (auto simp: retryWake_def split: if_splits)
next
  case (TimerTick now)
  with assms(3,4) show ?thesis by (auto simp: queryValues_eq)
next
  case (TimerAfter now)
  with assms(3,4) show ?thesis by (auto simp: queryValues_eq)
qed (use assms(1) in simp_all)

lemma quiet_run_written:
  assumes "\<forall>x \<in> set xs. isQuietStep x \<and> attemptWithin (b + 15 * Second) x"
    and "updateSpeed s = v \<and> updateSpeedRequested s = b \<and> currentSpeed s = v
         \<and> b + 5 * Second \<le> currentSpeedUpdated s \<and> busWrites s = W"
    and "main_loop vx cfg xs s = Inr s'"
  shows "busWrites s' = W"
  using assms
proof (induction xs arbitrary: s)
  case Nil
  then show ?case by simp
next
  case (Cons x xs)
  from Cons.prems(3) obtain s1 where s1: "main_step vx cfg x s = Inr s1"
    and r: "main_loop vx cfg xs s1 = Inr s'"
    by (auto split: sum.splits)
  from Cons.prems(1) have x: "isQuietStep x" "attemptWithin (b + 15 * Second) x" by simp_all
  note a = quiet_step_written [OF x Cons.prems(2) s1]
  from Cons.IH [OF _ a r] Cons.prems(1) show ?case by simp
qed

text \<open>A quiet step before the write: it does not write, or it is the write.\<close>

lemma quiet_step_waiting:
  assumes "isQuietStep x" and "attemptWithin (b + 15 * Second) x"
    and "updateSpeed s = v \<and> updateSpeedRequested s = b
         \<and> (currentSpeed s \<noteq> v \<or> currentSpeedUpdated s + 10 * Second \<le> b)
         \<and> busWrites s = W \<and> 0 < pending s"
    and "main_step vx cfg x s = Inr s'"
  shows "(updateSpeed s' = v \<and> updateSpeedRequested s' = b
          \<and> (currentSpeed s' \<noteq> v \<or> currentSpeedUpdated s' + 10 * Second \<le> b)
          \<and> busWrites s' = W \<and> 0 < pending s')
       \<or> (updateSpeed s' = v \<and> updateSpeedRequested s' = b \<and> currentSpeed s' = v
          \<and> b + 5 * Second \<le> currentSpeedUpdated s' \<and> busWrites s' = W @ [SetSpeed v])"
proof (cases x)
  case (RecvSpeedUpdateSend t1 t2 t3)
  with assms(4) obtain tok rest where c: "speedUpdateSend s = tok # rest"
    by (cases "speedUpdateSend s") auto
  from assms(2) RecvSpeedUpdateSend have t: "t1 \<le> t2" "t2 \<le> t3" by simp_all
  show ?thesis
  proof (cases "Since t1 (updateSpeedRequested s) < 5 * Second")
    case True
    with assms(3,4) RecvSpeedUpdateSend c show ?thesis
      by (auto simp: sendSpeed_def pending_def)
  next
    case False
    with assms(3) t have w: "currentSpeed s \<noteq> updateSpeed s
        \<or> Since t2 (currentSpeedUpdated s) > 10 * Second"
      by (auto simp: Since_def Second_def Millisecond_def)
    from False assms(3) t have "b + 5 * Second \<le> t3"
      by (simp add: Since_def)
    with False w assms(3,4) RecvSpeedUpdateSend c show ?thesis
      by (auto simp: sendSpeed_def emit_def busWrites_def)
  qed
next
  case (RetryWake i t)
  with assms(3,4) show ?thesis
    by (auto simp: retryWake_def pending_def min_def split: if_splits)
next
  case (TimerTick now)
  with assms(3,4) show ?thesis by (auto simp: queryValues_eq)
next
  case (TimerAfter now)
  with assms(3,4) show ?thesis by (auto simp: queryValues_eq)
qed (use assms(1) in simp_all)

lemma quiet_run_waiting:
  assumes "\<forall>x \<in> set xs. isQuietStep x \<and> attemptWithin (b + 15 * Second) x"
    and "updateSpeed s = v \<and> updateSpeedRequested s = b
         \<and> (currentSpeed s \<noteq> v \<or> currentSpeedUpdated s + 10 * Second \<le> b)
         \<and> busWrites s = W \<and> 0 < pending s"
    and "main_loop vx cfg xs s = Inr s'"
  shows "(busWrites s' = W \<and> 0 < pending s') \<or> busWrites s' = W @ [SetSpeed v]"
  using assms
proof (induction xs arbitrary: s)
  case Nil
  then show ?case by simp
next
  case (Cons x xs)
  from Cons.prems(3) obtain s1 where s1: "main_step vx cfg x s = Inr s1"
    and r: "main_loop vx cfg xs s1 = Inr s'"
    by (auto split: sum.splits)
  from Cons.prems(1) have x: "isQuietStep x" "attemptWithin (b + 15 * Second) x"
    and xs: "\<forall>x \<in> set xs. isQuietStep x \<and> attemptWithin (b + 15 * Second) x"
    by simp_all
  from quiet_step_waiting [OF x Cons.prems(2) s1] show ?case
  proof
    assume "updateSpeed s1 = v \<and> updateSpeedRequested s1 = b
          \<and> (currentSpeed s1 \<noteq> v \<or> currentSpeedUpdated s1 + 10 * Second \<le> b)
          \<and> busWrites s1 = W \<and> 0 < pending s1"
    from Cons.IH [OF xs this r] show ?thesis .
  next
    assume "updateSpeed s1 = v \<and> updateSpeedRequested s1 = b \<and> currentSpeed s1 = v
          \<and> b + 5 * Second \<le> currentSpeedUpdated s1 \<and> busWrites s1 = W @ [SetSpeed v]"
    from quiet_run_written [OF xs this r] show ?thesis by simp
  qed
qed


text \<open>The step that receives a command.\<close>

lemma request_step:
  assumes "speedUpdateRequest s = v # rest"
    and "main_step vx cfg (RecvSpeedUpdateRequest a b) s = Inr s'"
  shows "speedUpdateRequest s' = rest \<and> busWrites s' = busWrites s
    \<and> currentSpeed s' = currentSpeed s \<and> currentSpeedUpdated s' = currentSpeedUpdated s
    \<and> ((hasSameRecentSpeed v a s \<and> updateSpeed s' = updateSpeed s
          \<and> updateSpeedRequested s' = updateSpeedRequested s \<and> pending s' = pending s)
        \<or> (\<not> hasSameRecentSpeed v a s \<and> updateSpeed s' = v
          \<and> updateSpeedRequested s' = b \<and> pending s' = pending s + 1))"
  using assms
  by (auto simp: hasSameRecentSpeed_def Let_def pending_def split: if_splits)

text \<open>
  Claim C4, as the code has it. The channel of commands holds \<open>v1\<close>, \<open>v2\<close>, \<open>v3\<close>; no
  attempt is queued and no retry goroutine sleeps. The dispatcher receives the three
  commands (the clock shows \<open>b1\<close>, \<open>b2\<close>, \<open>b3\<close> when it stores their instants), and
  between and after them only quiet steps happen: attempts to write, retry goroutines
  that wake up, timers. Every attempt before the third command reads the clock before
  \<open>b1\<close> plus 5 seconds (the burst lies within the cool-down of the first command); every
  attempt after it reads the clock not later than 15 seconds after \<open>b3\<close>; and the third
  command passes the test of claim C5 (\<open>v3\<close> is not the confirmed speed, or the
  confirmation is at least 10 seconds old when \<open>v3\<close> arrives). Then, when all attempts
  are done (nothing is left on \<^verbatim>\<open>speedUpdateSend\<close>, no retry goroutine sleeps), exactly one
  bus write has been added, and it carries \<open>v3\<close>.
\<close>

theorem debounce_coalescing:
  assumes init: "speedUpdateSend s0 = []" "retries s0 = []"
      "speedUpdateRequest s0 = [v1, v2, v3]"
    and burst: "\<forall>x \<in> set (B @ C). isQuietStep x \<and> attemptBefore (b1 + 5 * Second) x"
    and rest: "\<forall>x \<in> set D. isQuietStep x \<and> attemptWithin (b3 + 15 * Second) x"
    and clock: "b1 \<le> b2" "a3 \<le> b3"
    and gate: "\<not> hasSameRecentSpeed v3 a3 s0"
    and run: "main_loop vx cfg
        (RecvSpeedUpdateRequest a1 b1 # B @ RecvSpeedUpdateRequest a2 b2 # C
           @ RecvSpeedUpdateRequest a3 b3 # D) s0 = Inr s'"
    and quiescent: "speedUpdateSend s' = []" "retries s' = []"
  shows "busWrites s' = busWrites s0 @ [SetSpeed v3]"
proof -
  let ?T = "b1 + 5 * Second"
  from run obtain s1 where s1: "main_step vx cfg (RecvSpeedUpdateRequest a1 b1) s0 = Inr s1"
    and r1: "main_loop vx cfg (B @ RecvSpeedUpdateRequest a2 b2 # C
           @ RecvSpeedUpdateRequest a3 b3 # D) s1 = Inr s'"
    by (auto split: sum.splits)
  from r1 obtain s1' where B: "main_loop vx cfg B s1 = Inr s1'"
    and r2: "main_loop vx cfg (RecvSpeedUpdateRequest a2 b2 # C
           @ RecvSpeedUpdateRequest a3 b3 # D) s1' = Inr s'"
    by (auto simp: main_loop_append split: sum.splits)
  from r2 obtain s2 where s2: "main_step vx cfg (RecvSpeedUpdateRequest a2 b2) s1' = Inr s2"
    and r3: "main_loop vx cfg (C @ RecvSpeedUpdateRequest a3 b3 # D) s2 = Inr s'"
    by (auto split: sum.splits)
  from r3 obtain s2' where C: "main_loop vx cfg C s2 = Inr s2'"
    and r4: "main_loop vx cfg (RecvSpeedUpdateRequest a3 b3 # D) s2' = Inr s'"
    by (auto simp: main_loop_append split: sum.splits)
  from r4 obtain s3 where s3: "main_step vx cfg (RecvSpeedUpdateRequest a3 b3) s2' = Inr s3"
    and D: "main_loop vx cfg D s3 = Inr s'"
    by (auto split: sum.splits)
  from burst have qB: "\<forall>x \<in> set B. isQuietStep x \<and> attemptBefore ?T x"
    and qC: "\<forall>x \<in> set C. isQuietStep x \<and> attemptBefore ?T x"
    by simp_all
  from init have p0: "pending s0 = 0" by (simp add: pending_def)
  note f1 = request_step [OF init(3) s1]
  with p0 have c1: "0 < pending s1 \<longrightarrow> ?T \<le> updateSpeedRequested s1 + 5 * Second"
    by auto
  note fB = quiet_run_cool [OF qB c1 B]
  from f1 fB have q1: "speedUpdateRequest s1' = [v2, v3]" by simp
  note f2 = request_step [OF q1 s2]
  from f2 fB c1 clock(1)
  have c2: "0 < pending s2 \<longrightarrow> ?T \<le> updateSpeedRequested s2 + 5 * Second"
    by auto
  note fC = quiet_run_cool [OF qC c2 C]
  from f2 fC have q2: "speedUpdateRequest s2' = [v3]" by simp
  note f3 = request_step [OF q2 s3]
  from f1 fB f2 fC have same: "currentSpeed s2' = currentSpeed s0"
    "currentSpeedUpdated s2' = currentSpeedUpdated s0" "busWrites s2' = busWrites s0"
    by simp_all
  with gate have g: "\<not> hasSameRecentSpeed v3 a3 s2'"
    by (simp add: hasSameRecentSpeed_def)
  with f3 have acc: "updateSpeed s3 = v3" "updateSpeedRequested s3 = b3" "0 < pending s3"
    "currentSpeed s3 = currentSpeed s0" "currentSpeedUpdated s3 = currentSpeedUpdated s0"
    "busWrites s3 = busWrites s0"
    using same by auto
  from gate clock(2) have "currentSpeed s0 \<noteq> v3 \<or> currentSpeedUpdated s0 + 10 * Second \<le> b3"
    by (auto simp: hasSameRecentSpeed_def Since_def)
  with acc have w: "updateSpeed s3 = v3 \<and> updateSpeedRequested s3 = b3
         \<and> (currentSpeed s3 \<noteq> v3 \<or> currentSpeedUpdated s3 + 10 * Second \<le> b3)
         \<and> busWrites s3 = busWrites s0 \<and> 0 < pending s3"
    by simp
  from quiescent have "pending s' = 0" by (simp add: pending_def)
  with quiet_run_waiting [OF rest w D] show ?thesis by simp
qed

lemma burst_run:
  "main_loop vx0 cfg0
     (RecvSpeedUpdateRequest (1 * Second) (1 * Second) # burst_B
        @ RecvSpeedUpdateRequest (2 * Second) (2 * Second) # burst_C
        @ RecvSpeedUpdateRequest (3 * Second) (3 * Second) # burst_D) s_burst
   = Inr s_burst_done"
  by (simp add: burst_defs sample_defs hasSameRecentSpeed_def sendSpeed_def retryWake_def
      emit_def queryValues_eq absentOrOld_def topic_defs Let_def)

theorem debounce_coalescing_witness:
  "speedUpdateSend s_burst = [] \<and> retries s_burst = [] \<and> speedUpdateRequest s_burst = [4, 5, 6]
   \<and> \<not> hasSameRecentSpeed 6 (3 * Second) s_burst
   \<and> main_loop vx0 cfg0
        (RecvSpeedUpdateRequest (1 * Second) (1 * Second) # burst_B
           @ RecvSpeedUpdateRequest (2 * Second) (2 * Second) # burst_C
           @ RecvSpeedUpdateRequest (3 * Second) (3 * Second) # burst_D) s_burst
      = Inr s_burst_done
   \<and> speedUpdateSend s_burst_done = [] \<and> retries s_burst_done = []
   \<and> busWrites s_burst_done = busWrites s_burst @ [SetSpeed 6]
   \<and> busWrites s_burst_done = [SetSpeed 6]"
proof -
  have init: "speedUpdateSend s_burst = []" "retries s_burst = []"
    "speedUpdateRequest s_burst = [4, 5, 6]"
    by (simp_all add: burst_defs sample_defs)
  have burst: "\<forall>x \<in> set (burst_B @ burst_C). isQuietStep x \<and> attemptBefore (1 * Second + 5 * Second) x"
    by (simp add: burst_defs sample_defs)
  have rest: "\<forall>x \<in> set burst_D. isQuietStep x \<and> attemptWithin (3 * Second + 15 * Second) x"
    by (simp add: burst_defs sample_defs)
  have clock: "1 * Second \<le> 2 * Second" "3 * Second \<le> 3 * Second"
    by (simp_all add: sample_defs)
  have gate: "\<not> hasSameRecentSpeed 6 (3 * Second) s_burst"
    by (simp add: hasSameRecentSpeed_def burst_defs sample_defs)
  have quiescent: "speedUpdateSend s_burst_done = []" "retries s_burst_done = []"
    by (simp_all add: burst_defs sample_defs)
  have b: "busWrites s_burst = []"
    by (simp add: busWrites_def burst_defs sample_defs)
  from debounce_coalescing [OF init burst rest clock gate burst_run quiescent] init gate
    burst_run quiescent b
  show ?thesis by simp
qed

text \<open>
  Claim C4 as it is written fails. The fan was confirmed at speed 3 at instant 0; the
  commands 4, 5, 3 arrive after 1, 2 and 3 seconds. The third command is the confirmed
  speed, confirmed 3 seconds ago, and is dropped; the pending request stays 5. All attempts
  are done after 7 seconds, with exactly one bus write, which carries 5 and not 3.
\<close>

theorem debounce_coalescing_counterexample:
  "speedUpdateRequest s_back = [4, 5, 3]
   \<and> main_loop vx0 cfg0 back_steps s_back = Inr s_back_done
   \<and> speedUpdateSend s_back_done = [] \<and> retries s_back_done = []
   \<and> busWrites s_back_done = [SetSpeed 5]"
  by (simp add: burst_defs sample_defs hasSameRecentSpeed_def sendSpeed_def retryWake_def
      emit_def busWrites_def Let_def)

section \<open>Inbound messages\<close>

lemma digits_loop_Inr_nonneg:
  "0 \<le> n \<Longrightarrow> digits_loop b0 b c maxVal cs n u = Inr (v, u') \<Longrightarrow> 0 \<le> v"
proof (induction cs arbitrary: n u)
  case Nil
  then show ?case by simp
next
  case (Cons a cs)
  show ?case
  proof (cases "a = CHR ''_'' \<and> b0")
    case True
    with Cons.prems(2) have "digits_loop b0 b c maxVal cs n True = Inr (v, u')" by simp
    with Cons.IH Cons.prems(1) show ?thesis by blast
  next
    case False
    with Cons.prems(2) obtain d where d: "digitValue a = Some d"
      and r: "digits_loop b0 b c maxVal cs ((n * b mod 2 ^ 64 + d) mod 2 ^ 64) u = Inr (v, u')"
      by (auto simp: Let_def split: option.splits if_splits)
    have "0 \<le> (n * b mod 2 ^ 64 + d) mod (2 ^ 64 :: int)" by simp
    with Cons.IH r show ?thesis by blast
  qed
qed

lemma digits_loop_Inl_nonneg:
  "0 \<le> maxVal \<Longrightarrow> digits_loop b0 b c maxVal cs n u = Inl (v, e) \<Longrightarrow> 0 \<le> v"
proof (induction cs arbitrary: n u)
  case Nil
  then show ?case by simp
next
  case (Cons a cs)
  show ?case
  proof (cases "a = CHR ''_'' \<and> b0")
    case True
    with Cons.prems(2) have "digits_loop b0 b c maxVal cs n True = Inl (v, e)" by simp
    with Cons.IH Cons.prems(1) show ?thesis by blast
  next
    case False
    with Cons.prems(2) have "v = 0 \<or> v = maxVal
      \<or> (\<exists>n'. digits_loop b0 b c maxVal cs n' u = Inl (v, e))"
      by (auto simp: Let_def split: option.splits if_splits)
    with Cons.IH Cons.prems(1) show ?thesis by auto
  qed
qed

lemma ParseUint_nonneg:
  assumes "ParseUint s b bits = (n, err)"
  shows "0 \<le> n"
proof -
  have m: "(0::int) \<le> 2 ^ k - 1" for k :: nat
    by simp
  from assms show ?thesis
    by (auto simp: ParseUint_def Let_def split: if_splits option.splits prod.splits sum.splits
          dest: digits_loop_Inr_nonneg [OF order_refl] digits_loop_Inl_nonneg [OF m])
qed

lemma ParseInt_range: "ParseInt body 0 8 = (n, None) \<Longrightarrow> - 128 \<le> n \<and> n \<le> 127"
  by (auto simp: ParseInt_def Let_def split: if_splits prod.splits dest: ParseUint_nonneg)

lemma ParseInt_examples:
  "ParseInt ''0x5'' 0 8 = (5, None)"
  "ParseInt ''-1'' 0 8 = (- 1, None)"
  "ParseInt ''100'' 0 8 = (100, None)"
  "ParseInt ''0'' 0 8 = (0, None)"
  "ParseInt ''127'' 0 8 = (127, None)"
  "ParseInt ''-128'' 0 8 = (- 128, None)"
  "ParseInt ''128'' 0 8 = (127, Some ErrRange)"
  "ParseInt ''-129'' 0 8 = (- 128, Some ErrRange)"
  "ParseInt ''300'' 0 8 = (127, Some ErrRange)"
  "ParseInt ''0b101'' 0 8 = (5, None)"
  "ParseInt ''0o17'' 0 8 = (15, None)"
  "ParseInt ''017'' 0 8 = (15, None)"
  "ParseInt ''0X7f'' 0 8 = (127, None)"
  "ParseInt ''abc'' 0 8 = (0, Some ErrSyntax)"
  "ParseInt '''' 0 8 = (0, Some ErrSyntax)"
  "ParseInt ''5.5'' 0 8 = (0, Some ErrSyntax)"
  by (simp_all add: parse_defs)

text \<open>
  Claim C9. When the payload of a speed command does not parse (\<^verbatim>\<open>ParseInt\<close> returns an
  error), \<^verbatim>\<open>changeSpeedMessage\<close> writes its two log lines, the second one through
  \<^verbatim>\<open>logError\<close>, and nothing else: no request is put on the channel, and the pending
  command, the confirmed speed and the cache are unchanged.
\<close>

theorem malformed_payload_dropped:
  assumes "snd (ParseInt body 0 8) \<noteq> None"
  shows "changeSpeedMessage body tpc s =
     Inr (s\<lparr>logs := logs s @ [Info (''received speed change '' @ body @ '' to '' @ tpc),
                                Error (''cannot parse speed from body '' @ body)]\<rparr>)"
  using assms
  by (auto simp: changeSpeedMessage_def logInfo_def logError_def Let_def split: prod.splits)

theorem malformed_payload_dropped_witness:
  "snd (ParseInt ''abc'' 0 8) \<noteq> None
   \<and> changeSpeedMessage ''abc'' ''vallox/fan/set'' s_init =
     Inr (s_init\<lparr>logs := [Info ''received speed change abc to vallox/fan/set'',
                            Error ''cannot parse speed from body abc'']\<rparr>)"
proof -
  have h: "snd (ParseInt ''abc'' 0 8) \<noteq> None"
    by (simp add: ParseInt_examples)
  show ?thesis
    using h malformed_payload_dropped [OF h, of "''vallox/fan/set''" s_init]
    by (simp add: sample_defs)
qed

text \<open>
  Parsing undoes printing: the decimal form of an integer parses to that integer when it
  lies between -128 and 127, and is a range error otherwise.
\<close>

lemma digit_decimal:
  assumes "d < 10"
  shows "digitValue (digit d) = Some (int d)" and "digit d \<noteq> CHR ''_''"
proof -
  from assms have "d \<in> {0, 1, 2, 3, 4, 5, 6, 7, 8, 9}" by auto
  then show "digitValue (digit d) = Some (int d)" and "digit d \<noteq> CHR ''_''"
    by (auto simp: digit_def digitValue_def ord_def lower_def)
qed

lemma digits_loop_append:
  "digits_loop b0 b c m (xs @ ys) n u =
     (case digits_loop b0 b c m xs n u of
        Inl e \<Rightarrow> Inl e
      | Inr (n', u') \<Rightarrow> digits_loop b0 b c m ys n' u')"
  by (induction xs arbitrary: n u) (auto simp: Let_def split: option.splits)

lemma digits_loop_decimal:
  "255 < c \<Longrightarrow> digits_loop b0 10 c 255 (fmt_base 10 n) 0 False =
     (if n \<le> 255 then Inr (int n, False) else Inl (255, ErrRange))"
proof (induction "10 :: nat" n rule: fmt_base.induct)
  case (1 n)
  show ?case
  proof (cases "n < 10")
    case True
    with \<open>255 < c\<close> show ?thesis
      by (simp add: fmt_base.simps [of 10 n] digit_decimal)
  next
    case False
    then have IH: "digits_loop b0 10 c 255 (fmt_base 10 (n div 10)) 0 False =
     (if n div 10 \<le> 255 then Inr (int (n div 10), False) else Inl (255, ErrRange))"
      using 1 by simp
    have d: "n mod 10 < 10" by simp
    have n: "int (n div 10) * 10 + int (n mod 10) = int n"
      by (metis of_nat_add of_nat_mult of_nat_numeral div_mult_mod_eq)
    have m: "int (n div 10) * 10 mod 18446744073709551616 = int (n div 10) * 10" if "n div 10 \<le> 255"
      using that by simp
    show ?thesis
    proof (cases "n div 10 \<le> 255")
      case True
      from m [OF True] have m2: "(int (n div 10) * 10 + int (n mod 10)) mod 18446744073709551616 = int n"
        using n True by simp
      from False True \<open>255 < c\<close> n d show ?thesis
        by (simp add: fmt_base.simps [of 10 n] digits_loop_append IH digit_decimal [OF d] m m2 Let_def)
    next
      case False
      then have "\<not> n \<le> 255" by simp
      with False \<open>\<not> n < 10\<close> show ?thesis
        by (simp add: fmt_base.simps [of 10 n] digits_loop_append IH)
    qed
  qed
qed


lemma hd_fmt_base_decimal: "0 < n \<Longrightarrow> \<exists>k. hd (fmt_base 10 n) = digit k \<and> 0 < k \<and> k < 10"
proof (induction "10 :: nat" n rule: fmt_base.induct)
  case (1 n)
  show ?case
  proof (cases "n < 10")
    case True
    with "1.prems" show ?thesis
      by (auto simp: fmt_base.simps [of 10 n])
  next
    case False
    then have "0 < n div 10" by simp
    with 1 False obtain k where "hd (fmt_base 10 (n div 10)) = digit k" "0 < k" "k < 10"
      by auto
    moreover have "fmt_base 10 (n div 10) \<noteq> []"
      by (subst fmt_base.simps) simp
    ultimately show ?thesis
      using False by (auto simp: fmt_base.simps [of 10 n])
  qed
qed

lemma fmt_base_decimal_head:
  assumes "0 < n"
  shows "fmt_base 10 n \<noteq> [] \<and> hd (fmt_base 10 n) \<noteq> CHR ''0''
    \<and> hd (fmt_base 10 n) \<noteq> CHR ''+'' \<and> hd (fmt_base 10 n) \<noteq> CHR ''-''"
proof -
  from hd_fmt_base_decimal [OF assms] obtain k where k: "hd (fmt_base 10 n) = digit k" "0 < k" "k < 10"
    by auto
  then have "k \<in> {1, 2, 3, 4, 5, 6, 7, 8, 9}" by auto
  with k(1) have "hd (fmt_base 10 n) \<noteq> CHR ''0''
    \<and> hd (fmt_base 10 n) \<noteq> CHR ''+'' \<and> hd (fmt_base 10 n) \<noteq> CHR ''-''"
    by (auto simp: digit_def)
  moreover have "fmt_base 10 n \<noteq> []"
    by (subst fmt_base.simps) simp
  ultimately show ?thesis by simp
qed

lemma ParseUint_decimal:
  "ParseUint (fmt_base 10 n) 0 8 = (if n \<le> 255 then (int n, None) else (255, Some ErrRange))"
proof (cases "n = 0")
  case True
  then show ?thesis
    by (simp add: ParseUint_def fmt_base.simps [of 10 0] digit_def IntSize_def)
next
  case False
  then have "0 < n" by simp
  note h = fmt_base_decimal_head [OF this]
  have c: "(255 :: int) < 1844674407370955162" by simp
  from h show ?thesis
    by (simp add: ParseUint_def Let_def IntSize_def digits_loop_decimal [OF c])
qed

lemma ParseInt_decimal:
  "ParseInt (fmt_d k) 0 8 =
     (if k < - 128 then (- 128, Some ErrRange)
      else if 127 < k then (127, Some ErrRange)
      else (k, None))"
proof (cases "k < 0")
  case True
  then have f: "fmt_d k = CHR ''-'' # fmt_base 10 (nat (- k))"
    by (simp add: fmt_d_def)
  from True show ?thesis
    by (auto simp: f ParseInt_def ParseUint_decimal Let_def)
next
  case False
  then have f: "fmt_d k = fmt_base 10 (nat k)"
    by (simp add: fmt_d_def)
  show ?thesis
  proof (cases "k = 0")
    case True
    then show ?thesis
      by (simp add: fmt_d_def ParseInt_def ParseUint_def fmt_base.simps [of 10 0] digit_def
          IntSize_def)
  next
    case nz: False
    with False have "0 < nat k" by simp
    note h = fmt_base_decimal_head [OF this]
    from False h show ?thesis
      by (auto simp: f ParseInt_def ParseUint_decimal Let_def)
  qed
qed

text \<open>
  Claim C10. Every payload that \<^verbatim>\<open>ParseInt(body, 0, 8)\<close> accepts has a value from -128 to
  127, and \<^verbatim>\<open>changeSpeedMessage\<close> forwards its low eight bits as a request, whatever the
  value (there is no check against the speeds 1 to 8). The base prefix is honoured
  (\<open>0x5\<close> and \<open>0b101\<close> are 5, \<open>017\<close> is 15), \<open>100\<close> is accepted, \<open>-1\<close> is accepted and
  forwarded as 255; \<open>127\<close> and \<open>-128\<close> are accepted, \<open>128\<close> and \<open>-129\<close> are range errors.
  The last part is the rule behind these examples: the decimal form of any integer \<open>k\<close>
  is accepted with value \<open>k\<close> when \<open>k\<close> lies between -128 and 127, and is a range error
  otherwise.
\<close>

theorem speed_parser_signed_8bit:
  "(ParseInt body 0 8 = (n, None) \<longrightarrow> - 128 \<le> n \<and> n \<le> 127)
   \<and> (ParseInt body 0 8 = (n, None) \<and> length (speedUpdateRequest s) < chanCap \<longrightarrow>
        changeSpeedMessage body tpc s =
          Inr (s\<lparr>logs := logs s @ [Info (''received speed change '' @ body @ '' to '' @ tpc)],
                 speedUpdateRequest := speedUpdateRequest s @ [word_of_int n]\<rparr>))
   \<and> ParseInt ''0x5'' 0 8 = (5, None)
   \<and> ParseInt ''0b101'' 0 8 = (5, None)
   \<and> ParseInt ''017'' 0 8 = (15, None)
   \<and> ParseInt ''100'' 0 8 = (100, None)
   \<and> ParseInt ''-1'' 0 8 = (- 1, None)
   \<and> changeSpeedMessage ''-1'' tpc s_init =
       Inr (s_init\<lparr>logs := [Info (''received speed change -1 to '' @ tpc)],
                    speedUpdateRequest := [255]\<rparr>)
   \<and> ParseInt ''127'' 0 8 = (127, None)
   \<and> ParseInt ''-128'' 0 8 = (- 128, None)
   \<and> snd (ParseInt ''128'' 0 8) = Some ErrRange
   \<and> snd (ParseInt ''-129'' 0 8) = Some ErrRange
   \<and> ParseInt (fmt_d k) 0 8 =
       (if k < - 128 then (- 128, Some ErrRange)
        else if 127 < k then (127, Some ErrRange)
        else (k, None))"
proof -
  have acc: "changeSpeedMessage body tpc s =
          Inr (s\<lparr>logs := logs s @ [Info (''received speed change '' @ body @ '' to '' @ tpc)],
                 speedUpdateRequest := speedUpdateRequest s @ [word_of_int n]\<rparr>)"
    if "ParseInt body 0 8 = (n, None)" and "length (speedUpdateRequest s) < chanCap"
    for body n s tpc
    using that by (simp add: changeSpeedMessage_def logInfo_def)
  have "changeSpeedMessage ''-1'' tpc s_init =
       Inr (s_init\<lparr>logs := logs s_init @ [Info (''received speed change '' @ ''-1'' @ '' to '' @ tpc)],
                    speedUpdateRequest := speedUpdateRequest s_init @ [word_of_int (- 1)]\<rparr>)"
    by (rule acc) (simp_all add: ParseInt_examples sample_defs)
  then have m1: "changeSpeedMessage ''-1'' tpc s_init =
       Inr (s_init\<lparr>logs := [Info (''received speed change -1 to '' @ tpc)],
                    speedUpdateRequest := [255]\<rparr>)"
    by (simp add: s_init_def)
  show ?thesis
    using ParseInt_range [of body n] acc [of body n s tpc] m1 ParseInt_decimal [of k]
    by (simp add: ParseInt_examples)
qed

theorem speed_parser_signed_8bit_witness:
  "ParseInt ''7'' 0 8 = (7, None) \<and> length (speedUpdateRequest s_init) < chanCap
   \<and> - 128 \<le> (7::int) \<and> (7::int) \<le> 127
   \<and> changeSpeedMessage ''7'' ''vallox/fan/set'' s_init =
       Inr (s_init\<lparr>logs := [Info ''received speed change 7 to vallox/fan/set''],
                    speedUpdateRequest := [7]\<rparr>)"
proof -
  have h: "ParseInt ''7'' 0 8 = (7, None) \<and> length (speedUpdateRequest s_init) < chanCap"
    by (simp add: parse_defs sample_defs)
  show ?thesis
    using h speed_parser_signed_8bit [of "''7''" 7 s_init "''vallox/fan/set''"]
    by (simp add: sample_defs)
qed

end
